theory Spec2Isabelle
  imports Complex_Main
begin

section \<open>The relayer (pkg/relayer/relayer.go)\<close>

subsection \<open>Data\<close>

text \<open>
  Instants (\<open>time.Time\<close>) and durations (\<open>time.Duration\<close>) are integers in one common
  unit; big integers (\<open>*big.Int\<close>) are \<open>int\<close>.

  \<open>oracle.Price\<close> is declared in \<open>internal/oracle\<close>; the relayer reads its fields
  \<open>AssetPair\<close> and \<open>Val\<close>, the price list reads its \<open>Age\<close>.
\<close>

record Price =
  pAssetPair :: string
  Val :: int
  Age :: int

text \<open>
  The errors the relayer returns. \<open>InvalidPrice\<close> is \<open>errors.New("invalid price")\<close>,
  \<open>NotYetExpired\<close>, \<open>InsufficientQuorum\<close> and \<open>SpreadTooLow\<close> are the three
  \<open>"unable to update oracle, ..."\<close> errors of \<open>relay\<close>, \<open>Rpc\<close> is an error handed back by
  the median contract, \<open>InvalidReading\<close> is the error of the price list's \<open>Add\<close>.
  \<open>UnknownPair\<close> is the error the specification names for an unregistered pair; no
  statement of \<open>relayer.go\<close> constructs it.
\<close>

datatype error =
  InvalidPrice
| NotYetExpired
| InsufficientQuorum
| SpreadTooLow
| InvalidReading
| UnknownPair
| Rpc string

text \<open>
  The price list \<open>Prices\<close> (constructed by \<open>NewPrices(pair.AssetPair, pair.PriceExpiration)\<close>).
\<close>

record Prices =
  list_assetPair :: string
  list_expiration :: int
  prices_list :: "Price list"

text \<open>
  \<open>oracle.Median\<close>, the handle of the median contract: the answers of its four calls.
  \<open>Age\<close> is the time of the last on-chain update, \<open>Bar\<close> the required quorum (an
  unsigned count on chain), \<open>Price\<close> the current on-chain price, \<open>Poke\<close> the submission
  of a list of prices (it answers with the transaction's error, if any). An error of the
  contract is its message; \<open>relay\<close> returns it as it is (\<open>Rpc\<close>).
\<close>

record Median =
  Median_Age :: "string + int"
  Median_Bar :: "string + nat"
  Median_Price :: "string + int"
  Median_Poke :: "Price list \<Rightarrow> string option"

text \<open>
  \<open>Pair\<close>. The two pointer fields \<open>Median *oracle.Median\<close> and \<open>prices *Prices\<close> are
  options, \<open>None\<close> being \<open>nil\<close>. \<open>OracleSpread\<close> is a \<open>float64\<close>, taken here as a
  rational number.
\<close>

record Pair =
  AssetPair :: string
  OracleSpread :: rat
  OracleExpiration :: int
  PriceExpiration :: int
  Median :: "Median option"
  prices :: "Prices option"

text \<open>
  \<open>Relayer\<close>: the fields \<open>interval\<close> and \<open>pairs map[string]Pair\<close>. The mutex
  \<open>mu\<close> appears as the events \<open>Lock\<close> and \<open>Unlock\<close> of the tick below; the stop
  channel \<open>doneCh\<close> is left out.
\<close>

record Relayer =
  interval :: int
  pairs :: "string \<rightharpoonup> Pair"

subsection \<open>The price list\<close>

text \<open>
  The methods of \<open>Prices\<close> (\<open>NewPrices\<close>, \<open>Add\<close>, \<open>Len\<close>, \<open>ClearExpired\<close>,
  \<open>Truncate\<close>, \<open>Median\<close>, \<open>Get\<close>, \<open>Clear\<close>) are called by \<open>relayer.go\<close> and
  defined in a file of the package that is not among the sources. They are modelled
  from section 4.1 of the specification.
\<close>

text \<open>
  Modelled from the spec: \<open>NewPrices\<close>, missing from the sources; \<open>AddPair\<close>
  constructs the pair's price list with it, empty.
\<close>

definition NewPrices :: "string \<Rightarrow> int \<Rightarrow> Prices" where
  "NewPrices a e = \<lparr>list_assetPair = a, list_expiration = e, prices_list = []\<rparr>"

text \<open>
  Modelled from the spec: \<open>Prices.Add\<close>, missing from the sources; it fails with
  \<open>InvalidReading\<close> if the value is 0 and otherwise appends the reading.
\<close>

definition Prices_Add :: "Prices \<Rightarrow> Price \<Rightarrow> error + Prices" where
  "Prices_Add p price =
     (if Val price = 0 then Inl InvalidReading
      else Inr (p\<lparr>prices_list := prices_list p @ [price]\<rparr>))"

text \<open>
  Modelled from the spec: \<open>Prices.Len\<close>, missing from the sources; the current
  reading count.
\<close>

definition Prices_Len :: "Prices \<Rightarrow> nat" where
  "Prices_Len p = length (prices_list p)"

text \<open>
  Modelled from the spec: \<open>Prices.ClearExpired\<close>, missing from the sources; it removes
  any reading whose age (at the time \<open>now\<close> of the call) exceeds \<open>priceExpiration\<close>.
\<close>

definition Prices_ClearExpired :: "int \<Rightarrow> Prices \<Rightarrow> Prices" where
  "Prices_ClearExpired now p =
     p\<lparr>prices_list := filter (\<lambda>x. \<not> (list_expiration p < now - Age x)) (prices_list p)\<rparr>"

text \<open>
  Modelled from the spec: the median of section 4.1, which \<open>Prices.Median\<close> and
  \<open>Prices.Truncate\<close> (both missing from the sources) rest on. The readings are sorted
  by value; for an odd count the median is the middle value, for an even count the
  arithmetic mean of the two middle values, exactly (2.5 for the values 1, 2, 3, 4).
  An empty list has no median.
\<close>

definition median_of :: "int list \<Rightarrow> rat option" where
  "median_of values =
     (let vs = sort values; n = length vs
      in if n = 0 then None
         else if odd n then Some (of_int (vs ! (n div 2)))
         else Some ((of_int (vs ! (n div 2 - 1)) + of_int (vs ! (n div 2))) / 2))"

text \<open>
  Modelled from the spec: \<open>Prices.Median\<close>, missing from the sources. \<open>relay\<close> hands
  its result to \<open>calcSpread\<close> as a \<open>*big.Int\<close>, so the result is an integer: the
  middle value for an odd count, and for an even count the mean of the two middle
  values rounded down (the specification does not say how a mean that is no integer is
  turned into one). It must not be called on an empty list, where it has no result.
\<close>

definition Prices_Median :: "Prices \<Rightarrow> int option" where
  "Prices_Median p =
     (let vs = sort (map Val (prices_list p)); n = length vs
      in if n = 0 then None
         else if odd n then Some (vs ! (n div 2))
         else Some ((vs ! (n div 2 - 1) + vs ! (n div 2)) div 2))"

text \<open>
  Modelled from the spec: \<open>Prices.Truncate\<close>, missing from the sources; it retains
  exactly \<open>min(n, Len())\<close> readings, the ones closest to the median (the exact one).
  Of two readings at the same distance the one collected first is kept first.
\<close>

definition Prices_Truncate :: "nat \<Rightarrow> Prices \<Rightarrow> Prices" where
  "Prices_Truncate n p =
     (case median_of (map Val (prices_list p)) of
        None \<Rightarrow> p
      | Some c \<Rightarrow>
          p\<lparr>prices_list := take n (sort_key (\<lambda>x. \<bar>of_int (Val x) - c\<bar>) (prices_list p))\<rparr>)"

text \<open>
  Modelled from the spec: \<open>Prices.Get\<close>, missing from the sources; the retained
  readings, for the submission.
\<close>

definition Prices_Get :: "Prices \<Rightarrow> Price list" where
  "Prices_Get p = prices_list p"

text \<open>Modelled from the spec: \<open>Prices.Clear\<close>, missing from the sources; it empties the list.\<close>

definition Prices_Clear :: "Prices \<Rightarrow> Prices" where
  "Prices_Clear p = p\<lparr>prices_list := []\<rparr>"

subsection \<open>AddPair and Collect\<close>

text \<open>
  Indexing a Go map at a missing key gives the zero value of the element type: the
  \<open>Pair\<close> whose strings are empty, whose numbers are 0 and whose pointers are \<open>nil\<close>.
\<close>

definition zeroPair :: Pair where
  "zeroPair = \<lparr>AssetPair = [], OracleSpread = 0, OracleExpiration = 0, PriceExpiration = 0,
               Median = None, prices = None\<rparr>"

definition pairs_index :: "(string \<rightharpoonup> Pair) \<Rightarrow> string \<Rightarrow> Pair" where
  "pairs_index m k = (case m k of None \<Rightarrow> zeroPair | Some p \<Rightarrow> p)"

definition NewRelayer :: "int \<Rightarrow> Relayer" where
  "NewRelayer i = \<lparr>interval = i, pairs = Map.empty\<rparr>"

definition AddPair :: "Relayer \<Rightarrow> Pair \<Rightarrow> Relayer" where
  "AddPair r pair =
     r\<lparr>pairs := (pairs r)(AssetPair pair \<mapsto>
          pair\<lparr>prices := Some (NewPrices (AssetPair pair) (PriceExpiration pair))\<rparr>)\<rparr>"

text \<open>
  What a call does: it returns (an error or \<open>nil\<close>, with the relayer as the call left it)
  or it panics. A method of \<open>Prices\<close> that reads or writes the list through a \<open>nil\<close>
  receiver dereferences \<open>nil\<close>, which is a run-time panic.
\<close>

datatype 'a outcome = Panic | Return 'a

definition Collect_price :: "Relayer \<Rightarrow> Price \<Rightarrow> (error option \<times> Relayer) outcome" where
  "Collect_price r price =
     (if Val price = 0 then Return (Some InvalidPrice, r)
      else
        (case prices (pairs_index (pairs r) (pAssetPair price)) of
           None \<Rightarrow> Panic
         | Some ps \<Rightarrow>
             (case Prices_Add ps price of
                Inl err \<Rightarrow> Return (Some err, r)
              | Inr ps' \<Rightarrow>
                  Return (None,
                    r\<lparr>pairs := (pairs r)(pAssetPair price \<mapsto>
                         (pairs_index (pairs r) (pAssetPair price))\<lparr>prices := Some ps'\<rparr>)\<rparr>))))"

subsection \<open>calcSpread\<close>

text \<open>
  The result of \<open>calcSpread\<close> is a \<open>float64\<close>: a number or an infinity. The numbers are
  taken exactly (as rationals): the roundings of \<open>big.Float\<close> and of the final
  conversion to \<open>float64\<close> are left out. The code's result is the exact one rounded:
  on the prices used below (100 and 50, 100 and 105) both are the same number; they can
  differ where a rounding moves the result across the pair's \<open>OracleSpread\<close>, and
  where the exact result is beyond the range of \<open>float64\<close> and the code has an
  infinity.

  \<open>big.Float.Quo\<close> panics when both operands are zero and gives an infinity of the
  dividend's sign when only the divisor is zero; an infinity times 100 is that
  infinity.
\<close>

datatype float64 = Finite rat | PosInf | NegInf

definition calcSpread :: "int \<Rightarrow> int \<Rightarrow> float64 outcome" where
  "calcSpread oldPrice newPrice =
     (if oldPrice = 0 then
        (if newPrice - oldPrice = 0 then Panic
         else if 0 < newPrice - oldPrice then Return PosInf
         else Return NegInf)
      else Return (Finite (of_int (newPrice - oldPrice) / of_int oldPrice * 100)))"

text \<open>The comparison \<open>spread < pair.OracleSpread\<close> of \<open>float64\<close> values.\<close>

fun float64_less :: "float64 \<Rightarrow> rat \<Rightarrow> bool" where
  "float64_less (Finite x) y = (x < y)"
| "float64_less PosInf y = False"
| "float64_less NegInf y = True"

text \<open>The absolute value of a \<open>float64\<close> (\<open>math.Abs\<close>).\<close>

fun float64_abs :: "float64 \<Rightarrow> float64" where
  "float64_abs (Finite x) = Finite \<bar>x\<bar>"
| "float64_abs PosInf = PosInf"
| "float64_abs NegInf = PosInf"

subsection \<open>relay\<close>

text \<open>
  The clock is read twice during \<open>relay\<close>: inside \<open>ClearExpired\<close> and by the
  \<open>time.Now()\<close> of the expiration check.
\<close>

record Clock =
  nowClear :: int
  nowGate :: int

text \<open>The network calls of \<open>relay\<close>, in the order they are made.\<close>

datatype call = CallAge | CallBar | CallPrice | CallPoke "Price list"

text \<open>
  \<open>relay\<close> panics, or returns its error (\<open>None\<close> is \<open>nil\<close>) and leaves the relayer
  \<open>post\<close> after the network calls \<open>calls\<close>.
\<close>

datatype step = Panicked | Done (err: "error option") (post: Relayer) (calls: "call list")

text \<open>
  Writing through the pointer \<open>pair.prices\<close> changes the list that the entry of the
  map points to.
\<close>

definition store :: "Relayer \<Rightarrow> string \<Rightarrow> Pair \<Rightarrow> Prices \<Rightarrow> Relayer" where
  "store r assetPair pair ps = r\<lparr>pairs := (pairs r)(assetPair \<mapsto> pair\<lparr>prices := Some ps\<rparr>)\<rparr>"

definition relay :: "Clock \<Rightarrow> Relayer \<Rightarrow> string \<Rightarrow> step" where
  "relay clk r assetPair =
    (let pair = pairs_index (pairs r) assetPair in
     case prices pair of
       None \<Rightarrow> Panicked
     | Some ps0 \<Rightarrow>
        let ps1 = Prices_ClearExpired (nowClear clk) ps0;
            r1 = store r assetPair pair ps1 in
        (case Median pair of
           None \<Rightarrow> Panicked
         | Some m \<Rightarrow>
            (case Median_Age m of
               Inl e \<Rightarrow> Done (Some (Rpc e)) r1 [CallAge]
             | Inr oracleTime \<Rightarrow>
                if nowGate clk < oracleTime + OracleExpiration pair
                then Done (Some NotYetExpired) r1 [CallAge]
                else
                 (case Median_Bar m of
                    Inl e \<Rightarrow> Done (Some (Rpc e)) r1 [CallAge, CallBar]
                  | Inr quorum \<Rightarrow>
                     if Prices_Len ps1 < quorum
                     then Done (Some InsufficientQuorum) r1 [CallAge, CallBar]
                     else
                      let ps2 = Prices_Truncate quorum ps1;
                          r2 = store r assetPair pair ps2 in
                      (case Prices_Median ps2 of
                         None \<Rightarrow> Panicked
                       | Some medianPrice \<Rightarrow>
                          (case Median_Price m of
                             Inl e \<Rightarrow> Done (Some (Rpc e)) r2 [CallAge, CallBar, CallPrice]
                           | Inr oldPrice \<Rightarrow>
                              (case calcSpread oldPrice medianPrice of
                                 Panic \<Rightarrow> Panicked
                               | Return spread \<Rightarrow>
                                  if float64_less spread (OracleSpread pair)
                                  then Done (Some SpreadTooLow) r2
                                         [CallAge, CallBar, CallPrice]
                                  else
                                    Done (map_option Rpc (Median_Poke m (Prices_Get ps2)))
                                      (store r assetPair pair (Prices_Clear ps2))
                                      [CallAge, CallBar, CallPrice,
                                       CallPoke (Prices_Get ps2)])))))))"

text \<open>The price list of a registered pair (\<open>r.pairs[k].prices\<close>).\<close>

definition buffer :: "Relayer \<Rightarrow> string \<Rightarrow> Prices option" where
  "buffer r k = (case pairs r k of None \<Rightarrow> None | Some pair \<Rightarrow> prices pair)"

text \<open>Whether a list of network calls holds a submission.\<close>

fun is_Poke :: "call \<Rightarrow> bool" where
  "is_Poke (CallPoke vs) = True"
| "is_Poke c = False"

subsection \<open>The tick of Start\<close>

text \<open>
  What one tick of the goroutine of \<open>Start\<close> does, in order: \<open>r.mu.Lock()\<close>, the
  network calls of \<open>relay\<close> for a pair, the sends on \<open>onErrChan\<close> and
  \<open>onSuccessChan\<close>, \<open>r.mu.Unlock()\<close>.
\<close>

datatype event = Lock | Unlock | Net string call | SendErr error | SendSuccess string

text \<open>
  The body of \<open>for assetPair, pair := range r.pairs\<close>. The order in which a Go map
  is ranged over is not fixed: \<open>ks\<close> is the order of this tick. \<open>onSuccess\<close> and
  \<open>onErr\<close> tell whether the two channels are non-nil. \<open>clk k\<close> are the clock
  readings during the relay of pair \<open>k\<close>.
\<close>

definition sends :: "bool \<Rightarrow> bool \<Rightarrow> string \<Rightarrow> error option \<Rightarrow> event list" where
  "sends onSuccess onErr assetPair e =
     (case e of
        Some er \<Rightarrow> if onErr then [SendErr er] else []
      | None \<Rightarrow> if onSuccess then [SendSuccess assetPair] else [])"

fun range_pairs ::
  "(string \<Rightarrow> Clock) \<Rightarrow> bool \<Rightarrow> bool \<Rightarrow> string list \<Rightarrow> Relayer \<Rightarrow> (Relayer \<times> event list) outcome"
where
  "range_pairs clk onSuccess onErr [] r = Return (r, [])"
| "range_pairs clk onSuccess onErr (k # ks) r =
     (case pairs r k of
        None \<Rightarrow> range_pairs clk onSuccess onErr ks r
      | Some pair \<Rightarrow>
         (case prices pair of
            None \<Rightarrow> Panic
          | Some ps \<Rightarrow>
             if Prices_Len ps = 0 then range_pairs clk onSuccess onErr ks r
             else
              (case relay (clk k) r k of
                 Panicked \<Rightarrow> Panic
               | Done e r' cs \<Rightarrow>
                  (case range_pairs clk onSuccess onErr ks r' of
                     Panic \<Rightarrow> Panic
                   | Return (r'', evs) \<Rightarrow>
                       Return (r'', map (Net k) cs @ sends onSuccess onErr k e @ evs)))))"

definition tick ::
  "(string \<Rightarrow> Clock) \<Rightarrow> bool \<Rightarrow> bool \<Rightarrow> string list \<Rightarrow> Relayer \<Rightarrow> (Relayer \<times> event list) outcome"
where
  "tick clk onSuccess onErr ks r =
     (case range_pairs clk onSuccess onErr ks r of
        Panic \<Rightarrow> Panic
      | Return (r', evs) \<Rightarrow> Return (r', Lock # evs @ [Unlock]))"

text \<open>
  The network calls of a run of events, each with the state of the mutex at the call
  (\<open>True\<close>: held). The first argument is the state of the mutex before the run.
\<close>

fun net_calls :: "bool \<Rightarrow> event list \<Rightarrow> (call \<times> bool) list" where
  "net_calls held [] = []"
| "net_calls held (Lock # es) = net_calls True es"
| "net_calls held (Unlock # es) = net_calls False es"
| "net_calls held (Net k c # es) = (c, held) # net_calls held es"
| "net_calls held (SendErr e # es) = net_calls held es"
| "net_calls held (SendSuccess k # es) = net_calls held es"

text \<open>The events of a tick that did not panic.\<close>

fun events_of :: "(Relayer \<times> event list) outcome \<Rightarrow> event list" where
  "events_of Panic = []"
| "events_of (Return (r, evs)) = evs"

subsection \<open>A pair, a contract and readings to run the relayer on\<close>

text \<open>
  A median contract last updated at time 0, with quorum \<open>q\<close> and on-chain price 100,
  that accepts every submission; and one whose submissions fail.
\<close>

definition contract :: "nat \<Rightarrow> Median" where
  "contract q = \<lparr>Median_Age = Inr 0, Median_Bar = Inr q, Median_Price = Inr 100,
                 Median_Poke = (\<lambda>vs. None)\<rparr>"

definition failing_contract :: "nat \<Rightarrow> Median" where
  "failing_contract q = \<lparr>Median_Age = Inr 0, Median_Bar = Inr q, Median_Price = Inr 100,
                         Median_Poke = (\<lambda>vs. Some ''transaction failed'')\<rparr>"

definition reading :: "int \<Rightarrow> int \<Rightarrow> Price" where
  "reading v t = \<lparr>pAssetPair = ''ETHUSD'', Val = v, Age = t\<rparr>"

text \<open>
  The pair ETHUSD with \<open>OracleSpread = 2.0\<close>, \<open>OracleExpiration = 60\<close> and
  \<open>PriceExpiration = 30\<close>, as it is handed to \<open>AddPair\<close>.
\<close>

definition ethusd :: "Median \<Rightarrow> Pair" where
  "ethusd m = \<lparr>AssetPair = ''ETHUSD'', OracleSpread = 2, OracleExpiration = 60,
               PriceExpiration = 30, Median = Some m, prices = None\<rparr>"

text \<open>The pair once registered, holding the readings \<open>xs\<close>.\<close>

definition ethusd_holding :: "Median \<Rightarrow> Price list \<Rightarrow> Pair" where
  "ethusd_holding m xs =
     \<lparr>AssetPair = ''ETHUSD'', OracleSpread = 2, OracleExpiration = 60,
      PriceExpiration = 30, Median = Some m,
      prices = Some \<lparr>list_assetPair = ''ETHUSD'', list_expiration = 30, prices_list = xs\<rparr>\<rparr>"

text \<open>\<open>Collect\<close> called for each reading in turn, up to the first call that fails.\<close>

fun collect_all :: "Relayer \<Rightarrow> Price list \<Rightarrow> Relayer" where
  "collect_all r [] = r"
| "collect_all r (x # xs) =
     (case Collect_price r x of
        Return (None, r') \<Rightarrow> collect_all r' xs
      | _ \<Rightarrow> r)"

text \<open>A relayer with the pair ETHUSD registered, after the readings \<open>xs\<close> were collected.\<close>

definition relayer_with :: "Median \<Rightarrow> Price list \<Rightarrow> Relayer" where
  "relayer_with m xs = collect_all (AddPair (NewRelayer 1) (ethusd m)) xs"

definition at_time :: "int \<Rightarrow> Clock" where
  "at_time t = \<lparr>nowClear = t, nowGate = t\<rparr>"

text \<open>A tick during which every clock reading is \<open>t\<close>.\<close>

definition tick_at :: "int \<Rightarrow> string \<Rightarrow> Clock" where
  "tick_at t k = at_time t"

section \<open>The event scanner (package teleportevm)\<close>

text \<open>
  Of the event provider only its tests are among the sources
  (\<open>Test_teleportEventProvider_FetchEventsRoutine\<close>,
  \<open>Test_teleportEventProvider_PrefetchEventsRoutine\<close>, \<open>waitForEvents\<close>). The
  definitions of this section are modelled from the specification (sections 4.3 and
  4.4) where the tests are silent, and from the calls the tests assert where they speak.
\<close>

subsection \<open>Block ranges\<close>

text \<open>
  Modelled from the spec: the splitting of a block interval into ranges, missing from
  the sources. The ranges \<open>[lo, hi]\<close> cover the interval in ascending order, each of
  at most \<open>limit\<close> blocks. Block numbers are natural numbers. With a limit of 0 no
  range can be cut, and nothing is yielded.
\<close>

function chunks :: "nat \<Rightarrow> nat \<Rightarrow> nat \<Rightarrow> (nat \<times> nat) list" where
  "chunks limit lo hi =
     (if limit = 0 \<or> hi < lo then []
      else (lo, min hi (lo + limit - 1)) # chunks limit (min hi (lo + limit - 1) + 1) hi)"
  by pat_completeness auto
termination
  by (relation "measure (\<lambda>(limit, lo, hi). Suc hi - lo)") auto

declare chunks.simps [simp del]

text \<open>
  Modelled from the spec: the block-range cursor, missing from the sources. Given
  \<open>head\<close>, \<open>confirmations\<close>, \<open>limit\<close> and \<open>lastProcessed\<close> it computes
  \<open>safe = head - confirmations\<close>; if \<open>safe \<le> lastProcessed\<close> there is nothing to scan;
  otherwise it yields the ranges covering \<open>(lastProcessed, safe]\<close>.
\<close>

definition BlockRangeCursor :: "nat \<Rightarrow> nat \<Rightarrow> nat \<Rightarrow> nat \<Rightarrow> (nat \<times> nat) list" where
  "BlockRangeCursor head confirmations limit lastProcessed =
     (let safe = head - confirmations
      in if safe \<le> lastProcessed then [] else chunks limit (lastProcessed + 1) safe)"

text \<open>
  Modelled from the spec: the progress of the cursor, missing from the sources. After
  each range is successfully processed, \<open>lastProcessed\<close> advances to that range's upper
  end; a range whose fetch fails stops the tick, and \<open>lastProcessed\<close> stays at the
  last range that succeeded. \<open>ok\<close> tells whether the fetch of a range succeeds.
\<close>

fun advance :: "(nat \<times> nat \<Rightarrow> bool) \<Rightarrow> nat \<Rightarrow> (nat \<times> nat) list \<Rightarrow> nat" where
  "advance ok lastProcessed [] = lastProcessed"
| "advance ok lastProcessed (rg # rs) =
     (if ok rg then advance ok (snd rg) rs else lastProcessed)"

text \<open>The blocks of a list of ranges.\<close>

definition blocks_of :: "(nat \<times> nat) list \<Rightarrow> nat set" where
  "blocks_of rs = (\<Union>(lo, hi) \<in> set rs. {lo..hi})"

text \<open>Ranges in strictly ascending, and in strictly descending, order.\<close>

definition ascending :: "(nat \<times> nat) list \<Rightarrow> bool" where
  "ascending rs = sorted_wrt (\<lambda>a b. snd a < fst b) rs"

definition descending :: "(nat \<times> nat) list \<Rightarrow> bool" where
  "descending rs = sorted_wrt (\<lambda>a b. snd b < fst a) rs"

text \<open>Each range starts right after the one before it ends.\<close>

fun contiguous :: "(nat \<times> nat) list \<Rightarrow> bool" where
  "contiguous [] = True"
| "contiguous [rg] = True"
| "contiguous (rg # rg' # rs) = (fst rg' = snd rg + 1 \<and> contiguous (rg' # rs))"

text \<open>Each range ends right before the one before it starts.\<close>

fun adjacent_down :: "(nat \<times> nat) list \<Rightarrow> bool" where
  "adjacent_down [] = True"
| "adjacent_down [rg] = True"
| "adjacent_down (rg # rg' # rs) = (snd rg' + 1 = fst rg \<and> adjacent_down (rg' # rs))"

subsection \<open>Logs and the live routine\<close>

text \<open>
  A log of the chain, with the fields the tests set (\<open>types.Log\<close>); byte strings are
  written in hexadecimal, as the tests write them.
\<close>

record Log =
  TxIndex :: nat
  Data :: string
  TxHash :: string
  Address :: string

text \<open>
  The chain client's \<open>FilterLogs\<close> for a block range: the logs, or \<open>None\<close> when the
  call fails.
\<close>

type_synonym client = "nat \<times> nat \<Rightarrow> Log list option"

text \<open>
  Modelled from the spec: one scan of the live routine over the ranges of a tick,
  missing from the sources. Each range is fetched; a failed fetch ends the scan; the
  event of every log of a fetched range is emitted and the cursor advances to the
  range's upper end. The result is the cursor, the logs whose events were emitted, and
  the ranges that were asked for.

  No emitted event is held back: \<open>Test_teleportEventProvider_FetchEventsRoutine\<close>
  has each of its three \<open>FilterLogs\<close> calls return the same two logs and waits for six
  events.
\<close>

fun scan :: "client \<Rightarrow> nat \<Rightarrow> (nat \<times> nat) list \<Rightarrow> nat \<times> Log list \<times> (nat \<times> nat) list" where
  "scan fl lastProcessed [] = (lastProcessed, [], [])"
| "scan fl lastProcessed (rg # rs) =
     (case fl rg of
        None \<Rightarrow> (lastProcessed, [], [rg])
      | Some logs \<Rightarrow>
          (case scan fl (snd rg) rs of
             (lp, out, asked) \<Rightarrow> (lp, logs @ out, rg # asked)))"

text \<open>
  Modelled from the spec: the ticks of the live routine, missing from the sources. On
  every tick it reads the chain height and scans from its cursor to
  \<open>head - confirmations\<close>. \<open>heads\<close> are the heights read on the successive ticks.
\<close>

fun live_ticks ::
  "client \<Rightarrow> nat \<Rightarrow> nat \<Rightarrow> nat \<Rightarrow> nat list \<Rightarrow> nat \<times> Log list \<times> (nat \<times> nat) list"
where
  "live_ticks fl confirmations limit lastProcessed [] = (lastProcessed, [], [])"
| "live_ticks fl confirmations limit lastProcessed (head # heads) =
     (case scan fl lastProcessed (BlockRangeCursor head confirmations limit lastProcessed) of
        (lp, out, asked) \<Rightarrow>
          (case live_ticks fl confirmations limit lp heads of
             (lp', out', asked') \<Rightarrow> (lp', out @ out', asked @ asked')))"

text \<open>
  Modelled from the spec: the live routine from its start, missing from the sources.
  The first height read fixes where the routine begins: at \<open>head - confirmations\<close>
  (in the test the heights are 100, 119 and 125 with one confirmation, and the first
  range asked for starts at block 100).
\<close>

fun FetchEventsRoutine ::
  "client \<Rightarrow> nat \<Rightarrow> nat \<Rightarrow> nat list \<Rightarrow> nat \<times> Log list \<times> (nat \<times> nat) list"
where
  "FetchEventsRoutine fl confirmations limit [] = (0, [], [])"
| "FetchEventsRoutine fl confirmations limit (head # heads) =
     live_ticks fl confirmations limit (head - confirmations) heads"

text \<open>The logs whose events a run emitted, and the ranges it asked for.\<close>

definition emitted :: "nat \<times> Log list \<times> (nat \<times> nat) list \<Rightarrow> Log list" where
  "emitted res = fst (snd res)"

definition asked_ranges :: "nat \<times> Log list \<times> (nat \<times> nat) list \<Rightarrow> (nat \<times> nat) list" where
  "asked_ranges res = snd (snd res)"

text \<open>
  What a fetch gave the routine to emit: the logs the client returned, none for a call
  that failed.
\<close>

definition answer :: "client \<Rightarrow> nat \<times> nat \<Rightarrow> Log list" where
  "answer fl rg = (case fl rg of None \<Rightarrow> [] | Some logs \<Rightarrow> logs)"

subsection \<open>The backfill routine\<close>

text \<open>
  Modelled from the spec: the backward search of the backfill routine, missing from the
  sources. As section 4.4 has it, the routine starts from the live routine's safe
  height \<open>hi\<close> and steps backward in strides of \<open>limit\<close> blocks, sampling each
  candidate block's timestamp, until it finds one at or before the target time. The
  result is the blocks sampled, in the order they are sampled. The search also ends
  where another stride would pass block 0; with a limit of 0 nothing is sampled.
  \<open>ts\<close> is the timestamp of a block (\<open>BlockByNumber\<close>). In
  \<open>Test_teleportEventProvider_PrefetchEventsRoutine\<close> (safe height 99, limit 15) the
  blocks mocked are 99, 84 and 69.
\<close>

function prefetch_samples :: "(nat \<Rightarrow> int) \<Rightarrow> int \<Rightarrow> nat \<Rightarrow> nat \<Rightarrow> nat list" where
  "prefetch_samples ts target limit hi =
     (if limit = 0 then []
      else hi #
        (if ts hi \<le> target \<or> hi < limit then []
         else prefetch_samples ts target limit (hi - limit)))"
  by pat_completeness auto
termination
  by (relation "measure (\<lambda>(ts, target, limit, hi). hi)") auto

declare prefetch_samples.simps [simp del]

text \<open>The \<open>limit\<close> blocks that end at block \<open>b\<close> (fewer where they would pass block 0).\<close>

definition chunk_ending_at :: "nat \<Rightarrow> nat \<Rightarrow> nat \<times> nat" where
  "chunk_ending_at limit b = (b + 1 - limit, b)"

text \<open>
  Modelled from the spec: the ranges the backfill routine fetches, missing from the
  sources. The start (\<open>head - confirmations\<close>, where the live routine begins), the
  stride, the sampling and the target time \<open>now - prefetchPeriod\<close> are those of
  section 4.4. The ranges and their order are not: section 4.4 words a forward scan from
  the boundary block up to the live routine's start, whereas the one run the sources
  show, \<open>Test_teleportEventProvider_PrefetchEventsRoutine\<close> (head 100, one
  confirmation, limit 15, a period of 100 seconds, blocks 99, 84 and 69 stamped
  \<open>now\<close>, \<open>now - 80\<close> and \<open>now - 160\<close>), asserts the \<open>FilterLogs\<close> calls
  \<open>[85,99]\<close>, \<open>[70,84]\<close>, \<open>[55,69]\<close> in this order. The definition follows the
  test: for each block sampled, in the order of sampling, the chunk that ends at it is
  fetched. It agrees with the test on that run; on other runs it is the same rule
  applied to other inputs.
\<close>

definition PrefetchEventsRoutine ::
  "(nat \<Rightarrow> int) \<Rightarrow> int \<Rightarrow> int \<Rightarrow> nat \<Rightarrow> nat \<Rightarrow> nat \<Rightarrow> (nat \<times> nat) list"
where
  "PrefetchEventsRoutine ts now prefetchPeriod confirmations limit head =
     map (chunk_ending_at limit)
       (prefetch_samples ts (now - prefetchPeriod) limit (head - confirmations))"

text \<open>The blocks whose timestamps a run of the backfill routine samples.\<close>

definition sampled :: "(nat \<times> nat) list \<Rightarrow> nat list" where
  "sampled rs = map snd rs"

text \<open>Each block lies exactly \<open>limit\<close> blocks below the one before it.\<close>

fun stride_down :: "nat \<Rightarrow> nat list \<Rightarrow> bool" where
  "stride_down limit [] = True"
| "stride_down limit [b] = True"
| "stride_down limit (b # b' # bs) =
     (limit \<le> b \<and> b' = b - limit \<and> stride_down limit (b' # bs))"

subsection \<open>The clients of the two tests\<close>

definition teleportTestAddress :: string where
  "teleportTestAddress = ''2d800d93b065ce011af83f316cef9f0d005b0aa4''"

definition teleportTestGUID :: string where
  "teleportTestGUID = ''1111111111111111111111111111111111111111111111111111111111111111'' @
     ''2222222222222222222222222222222222222222222222222222222222222222'' @
     ''0000000000000000000000003333333333333333333333333333333333333333'' @
     ''0000000000000000000000004444444444444444444444444444444444444444'' @
     ''0000000000000000000000000000000000000000000000000000000000000037'' @
     ''0000000000000000000000000000000000000000000000000000000000000042'' @
     ''000000000000000000000000000000000000000000000000000000000000004d''"

definition txHash :: string where
  "txHash = ''66e8ab5a41d4b109c7f6ea5303e3c292771e57fb0b93a8474ca6f72e53eac0e8''"

definition test_logs :: "Log list" where
  "test_logs =
     [\<lparr>TxIndex = 1, Data = teleportTestGUID, TxHash = txHash, Address = teleportTestAddress\<rparr>,
      \<lparr>TxIndex = 2, Data = teleportTestGUID, TxHash = txHash, Address = teleportTestAddress\<rparr>]"

text \<open>The mocked client of the first test: every \<open>FilterLogs\<close> call returns the two logs.\<close>

definition fetch_test_client :: client where
  "fetch_test_client = (\<lambda>rg. Some test_logs)"

text \<open>
  The mocked blocks of the second test, with \<open>now\<close> taken as 1000: block 99 is
  stamped \<open>now\<close>, block 84 \<open>now - 80\<close>, block 69 \<open>now - 160\<close>. The test mocks no
  other block, and the run samples no other.
\<close>

definition prefetch_test_ts :: "nat \<Rightarrow> int" where
  "prefetch_test_ts n = (if n = 99 then 1000 else if n = 84 then 920 else 840)"

section \<open>Properties of the relayer\<close>

subsection \<open>The relayer the examples run on\<close>

lemma reading_fields:
  "Val (reading v t) = v" "pAssetPair (reading v t) = ''ETHUSD''" "Age (reading v t) = t"
  by (simp_all add: reading_def)

lemma collect_all_pairs:
  assumes "pairs r ''ETHUSD'' = Some pair" and "prices pair = Some ps"
    and "\<forall>x\<in>set xs. Val x \<noteq> 0 \<and> pAssetPair x = ''ETHUSD''"
  shows "pairs (collect_all r xs) ''ETHUSD'' =
           Some (pair\<lparr>prices := Some (ps\<lparr>prices_list := prices_list ps @ xs\<rparr>)\<rparr>)"
  using assms
proof (induction xs arbitrary: r pair ps)
  case Nil
  then show ?case by simp
next
  case (Cons x xs)
  let ?ps' = "ps\<lparr>prices_list := prices_list ps @ [x]\<rparr>"
  let ?r' = "r\<lparr>pairs := (pairs r)(''ETHUSD'' \<mapsto> pair\<lparr>prices := Some ?ps'\<rparr>)\<rparr>"
  from Cons.prems have step: "Collect_price r x = Return (None, ?r')"
    by (simp add: Collect_price_def pairs_index_def Prices_Add_def)
  have "pairs (collect_all ?r' xs) ''ETHUSD'' =
          Some ((pair\<lparr>prices := Some ?ps'\<rparr>)
                 \<lparr>prices := Some (?ps'\<lparr>prices_list := prices_list ?ps' @ xs\<rparr>)\<rparr>)"
    by (rule Cons.IH) (use Cons.prems in simp_all)
  with step show ?case by simp
qed

lemma pairs_relayer_with:
  assumes "\<forall>x\<in>set xs. Val x \<noteq> 0 \<and> pAssetPair x = ''ETHUSD''"
  shows "pairs (relayer_with m xs) ''ETHUSD'' = Some (ethusd_holding m xs)"
proof -
  have "pairs (AddPair (NewRelayer 1) (ethusd m)) ''ETHUSD'' =
          Some ((ethusd m)\<lparr>prices := Some (NewPrices ''ETHUSD'' 30)\<rparr>)"
    by (simp add: AddPair_def NewRelayer_def ethusd_def)
  from collect_all_pairs [OF this _ assms, of "NewPrices ''ETHUSD'' 30"]
  show ?thesis
    by (simp add: relayer_with_def ethusd_holding_def ethusd_def NewPrices_def)
qed

lemma ethusd_holding_fields:
  "prices (ethusd_holding m xs) =
     Some \<lparr>list_assetPair = ''ETHUSD'', list_expiration = 30, prices_list = xs\<rparr>"
  "Median (ethusd_holding m xs) = Some m"
  "OracleExpiration (ethusd_holding m xs) = 60"
  "OracleSpread (ethusd_holding m xs) = 2"
  by (simp_all add: ethusd_holding_def)

lemma contract_fields:
  "Median_Age (contract q) = Inr 0" "Median_Bar (contract q) = Inr q"
  "Median_Price (contract q) = Inr 100" "Median_Poke (contract q) vs = None"
  "Median_Age (failing_contract q) = Inr 0" "Median_Bar (failing_contract q) = Inr q"
  "Median_Price (failing_contract q) = Inr 100"
  "Median_Poke (failing_contract q) vs = Some ''transaction failed''"
  by (simp_all add: contract_def failing_contract_def)

lemma at_time_fields: "nowClear (at_time t) = t" "nowGate (at_time t) = t"
  by (simp_all add: at_time_def)

subsection \<open>The paths through relay\<close>

lemma buffer_store: "buffer (store r k pair ps) k = Some ps"
  by (simp add: buffer_def store_def)

lemma relay_path_not_expired:
  assumes "pairs r k = Some pair" and "prices pair = Some ps" and "Median pair = Some m"
    and "Median_Age m = Inr oracleTime"
    and "nowGate clk < oracleTime + OracleExpiration pair"
  shows "relay clk r k =
           Done (Some NotYetExpired)
             (store r k pair (Prices_ClearExpired (nowClear clk) ps)) [CallAge]"
  using assms by (simp add: relay_def pairs_index_def Let_def)

lemma relay_path_age_error:
  assumes "pairs r k = Some pair" and "prices pair = Some ps" and "Median pair = Some m"
    and "Median_Age m = Inl msg"
  shows "relay clk r k =
           Done (Some (Rpc msg))
             (store r k pair (Prices_ClearExpired (nowClear clk) ps)) [CallAge]"
  using assms by (simp add: relay_def pairs_index_def Let_def)

lemma relay_path_quorum:
  assumes "pairs r k = Some pair" and "prices pair = Some ps" and "Median pair = Some m"
    and "Median_Age m = Inr oracleTime"
    and "\<not> nowGate clk < oracleTime + OracleExpiration pair"
    and "Median_Bar m = Inr quorum"
    and "Prices_Len (Prices_ClearExpired (nowClear clk) ps) < quorum"
  shows "relay clk r k =
           Done (Some InsufficientQuorum)
             (store r k pair (Prices_ClearExpired (nowClear clk) ps)) [CallAge, CallBar]"
  using assms by (simp add: relay_def pairs_index_def Let_def)

lemma relay_path_spread:
  assumes "pairs r k = Some pair" and "prices pair = Some ps" and "Median pair = Some m"
    and "Median_Age m = Inr oracleTime"
    and "\<not> nowGate clk < oracleTime + OracleExpiration pair"
    and "Median_Bar m = Inr quorum"
    and "\<not> Prices_Len (Prices_ClearExpired (nowClear clk) ps) < quorum"
    and "Prices_Median (Prices_Truncate quorum (Prices_ClearExpired (nowClear clk) ps)) = Some med"
    and "Median_Price m = Inr oldPrice"
    and "calcSpread oldPrice med = Return spread"
    and "float64_less spread (OracleSpread pair)"
  shows "relay clk r k =
           Done (Some SpreadTooLow)
            (store r k pair (Prices_Truncate quorum (Prices_ClearExpired (nowClear clk) ps)))
            [CallAge, CallBar, CallPrice]"
  using assms by (simp add: relay_def pairs_index_def Let_def)


text \<open>
  Every way \<open>relay\<close> returns for a registered pair: with the list as \<open>ClearExpired\<close>
  left it, with that list truncated, or with the truncated list cleared.
\<close>

lemma relay_results:
  assumes "pairs r k = Some pair" and "prices pair = Some ps"
    and "relay clk r k = Done e r' cs"
  shows "(buffer r' k = Some (Prices_ClearExpired (nowClear clk) ps)
            \<and> e \<noteq> Some SpreadTooLow \<and> e \<noteq> None)
       \<or> (\<exists>q. buffer r' k = Some (Prices_Truncate q (Prices_ClearExpired (nowClear clk) ps))
              \<and> e \<noteq> Some NotYetExpired \<and> e \<noteq> Some InsufficientQuorum \<and> e \<noteq> None)
       \<or> (\<exists>q. buffer r' k =
                Some (Prices_Clear (Prices_Truncate q (Prices_ClearExpired (nowClear clk) ps)))
              \<and> e \<noteq> Some NotYetExpired \<and> e \<noteq> Some InsufficientQuorum
              \<and> e \<noteq> Some SpreadTooLow)"
  using assms
  by (auto simp: relay_def pairs_index_def Let_def buffer_store
           split: option.splits sum.splits outcome.splits if_splits)

subsection \<open>The price list\<close>

lemma sort_Nil_iff: "sort xs = [] \<longleftrightarrow> xs = []"
proof -
  have "length (sort xs) = length xs" by simp
  then show ?thesis by (metis length_0_conv)
qed

lemma Prices_Median_None: "Prices_Median p = None \<longleftrightarrow> prices_list p = []"
  by (simp add: Prices_Median_def Let_def sort_Nil_iff)


text \<open>The integer median is the exact median rounded down.\<close>

lemma Prices_Median_floor:
  "Prices_Median p = map_option floor (median_of (map Val (prices_list p)))"
proof -
  have "\<lfloor>(rat_of_int a + rat_of_int b) / 2\<rfloor> = (a + b) div 2" for a b :: int
    using floor_divide_of_int_eq [of "a + b" 2, where ?'a = rat] by simp
  then show ?thesis
    by (simp add: Prices_Median_def median_of_def Let_def)
qed


text \<open>The four values of the specification's example: the two closest to 2.5 are kept.\<close>

lemma Prices_Truncate_example:
  "median_of [1, 2, 3, 4] = Some (5 / 2)"
  "map Val (prices_list (Prices_Truncate 2
     \<lparr>list_assetPair = ''ETHUSD'', list_expiration = 30,
        prices_list = [reading 1 0, reading 2 0, reading 3 0, reading 4 0]\<rparr>)) = [2, 3]"
  by (simp_all add: Prices_Truncate_def median_of_def reading_fields Let_def)

lemma set_ClearExpired:
  "set (prices_list (Prices_ClearExpired now ps)) =
     {x \<in> set (prices_list ps). now - Age x \<le> list_expiration ps}"
  by (auto simp: Prices_ClearExpired_def)

lemma set_Truncate: "set (prices_list (Prices_Truncate q p)) \<subseteq> set (prices_list p)"
proof (cases "median_of (map Val (prices_list p))")
  case None
  then show ?thesis by (simp add: Prices_Truncate_def)
next
  case (Some c)
  have "set (take q (sort_key (\<lambda>x. \<bar>of_int (Val x) - c\<bar>) (prices_list p))) \<subseteq>
      set (sort_key (\<lambda>x. \<bar>of_int (Val x) - c\<bar>) (prices_list p))"
    by (rule set_take_subset)
  with Some show ?thesis by (simp add: Prices_Truncate_def)
qed

lemma prices_list_Clear: "prices_list (Prices_Clear p) = []"
  by (simp add: Prices_Clear_def)

subsection \<open>The expiration gate\<close>

text \<open>
  Claim C5. A relay transition for a registered pair, in which the contract reports its
  last update time and that time plus the pair's \<open>OracleExpiration\<close> is still in the
  future, returns the error \<open>NotYetExpired\<close>; its only network call is the age query,
  so nothing is submitted; and the abort does not clear the price list: the list is
  left as \<open>ClearExpired\<close> left it before the gate, and every reading whose age does not
  exceed \<open>priceExpiration\<close> is still in it.
\<close>

theorem relay_aborts_not_yet_expired:
  assumes "pairs r k = Some pair" and "prices pair = Some ps" and "Median pair = Some m"
    and "Median_Age m = Inr oracleTime"
    and "nowGate clk < oracleTime + OracleExpiration pair"
  shows "relay clk r k =
           Done (Some NotYetExpired)
             (store r k pair (Prices_ClearExpired (nowClear clk) ps)) [CallAge]
         \<and> \<not> list_ex is_Poke (calls (relay clk r k))
         \<and> buffer (post (relay clk r k)) k = Some (Prices_ClearExpired (nowClear clk) ps)
         \<and> (\<forall>x \<in> set (prices_list ps). nowClear clk - Age x \<le> list_expiration ps \<longrightarrow>
              (\<exists>b. buffer (post (relay clk r k)) k = Some b \<and> x \<in> set (prices_list b)))"
proof -
  have path: "relay clk r k =
      Done (Some NotYetExpired) (store r k pair (Prices_ClearExpired (nowClear clk) ps)) [CallAge]"
    using assms by (rule relay_path_not_expired)
  have kept: "x \<in> set (prices_list (Prices_ClearExpired (nowClear clk) ps))"
    if "x \<in> set (prices_list ps)" and "nowClear clk - Age x \<le> list_expiration ps" for x
    using that by (simp add: Prices_ClearExpired_def)
  show ?thesis
    using kept by (simp add: path buffer_store)
qed

text \<open>
  At time 50 the contract's last update (time 0) is not yet 60 old. Of the two readings
  the one taken at time 10 has expired and the one taken at time 45 has not: it is
  still in the list after the abort.
\<close>

theorem relay_aborts_not_yet_expired_witness:
  "relay (at_time 50) (relayer_with (contract 3) [reading 105 10, reading 105 45]) ''ETHUSD'' =
     Done (Some NotYetExpired)
       (store (relayer_with (contract 3) [reading 105 10, reading 105 45]) ''ETHUSD''
          (ethusd_holding (contract 3) [reading 105 10, reading 105 45])
          \<lparr>list_assetPair = ''ETHUSD'', list_expiration = 30, prices_list = [reading 105 45]\<rparr>)
       [CallAge]
   \<and> buffer (post (relay (at_time 50)
         (relayer_with (contract 3) [reading 105 10, reading 105 45]) ''ETHUSD'')) ''ETHUSD'' =
       Some \<lparr>list_assetPair = ''ETHUSD'', list_expiration = 30, prices_list = [reading 105 45]\<rparr>"
proof -
  let ?xs = "[reading 105 10, reading 105 45]"
  let ?ps = "\<lparr>list_assetPair = ''ETHUSD'', list_expiration = 30, prices_list = ?xs\<rparr>"
  have reg: "pairs (relayer_with (contract 3) ?xs) ''ETHUSD'' =
      Some (ethusd_holding (contract 3) ?xs)"
    by (rule pairs_relayer_with) (simp add: reading_fields)
  have ps: "prices (ethusd_holding (contract 3) ?xs) = Some ?ps"
    by (simp add: ethusd_holding_fields)
  have m: "Median (ethusd_holding (contract 3) ?xs) = Some (contract 3)"
    by (simp add: ethusd_holding_fields)
  have age: "Median_Age (contract 3) = Inr 0"
    by (simp add: contract_def)
  have gate: "nowGate (at_time 50) < 0 + OracleExpiration (ethusd_holding (contract 3) ?xs)"
    by (simp add: at_time_def ethusd_holding_fields)
  have cl: "Prices_ClearExpired (nowClear (at_time 50)) ?ps =
      \<lparr>list_assetPair = ''ETHUSD'', list_expiration = 30, prices_list = [reading 105 45]\<rparr>"
    by (simp add: Prices_ClearExpired_def at_time_def reading_fields)
  from relay_aborts_not_yet_expired [OF reg ps m age gate]
  show ?thesis
    unfolding cl by (simp add: buffer_store)
qed

subsection \<open>The quorum gate\<close>

text \<open>
  Claim C4, as the code has it. In every relay transition for a registered pair in
  which the buffered reading count is strictly below the quorum the contract reports,
  the transition aborts with an error, no submission call occurs, and the price list is
  not truncated: it is left as \<open>ClearExpired\<close> left it. The error is
  \<open>InsufficientQuorum\<close> when the transition reaches the quorum gate, that is when
  the age query succeeded and the oracle has expired; otherwise the transition has
  already returned \<open>NotYetExpired\<close> or the age query's error, before the quorum is
  queried.
\<close>

theorem relay_below_quorum_aborts:
  assumes "pairs r k = Some pair" and "prices pair = Some ps" and "Median pair = Some m"
    and "Median_Bar m = Inr quorum"
    and "Prices_Len (Prices_ClearExpired (nowClear clk) ps) < quorum"
  shows "(\<exists>e cs. relay clk r k =
             Done (Some e) (store r k pair (Prices_ClearExpired (nowClear clk) ps)) cs
           \<and> \<not> list_ex is_Poke cs
           \<and> (e = InsufficientQuorum \<or> e = NotYetExpired \<or> (\<exists>msg. e = Rpc msg)))
       \<and> buffer (post (relay clk r k)) k = Some (Prices_ClearExpired (nowClear clk) ps)
       \<and> (\<forall>oracleTime. Median_Age m = Inr oracleTime
              \<and> \<not> nowGate clk < oracleTime + OracleExpiration pair \<longrightarrow>
            relay clk r k =
              Done (Some InsufficientQuorum)
                (store r k pair (Prices_ClearExpired (nowClear clk) ps)) [CallAge, CallBar])"
proof -
  let ?r1 = "store r k pair (Prices_ClearExpired (nowClear clk) ps)"
  have gate: "relay clk r k = Done (Some InsufficientQuorum) ?r1 [CallAge, CallBar]"
    if "Median_Age m = Inr t" and "\<not> nowGate clk < t + OracleExpiration pair" for t
    using assms(1-3) that assms(4,5) by (rule relay_path_quorum)
  have "\<exists>e cs. relay clk r k = Done (Some e) ?r1 cs \<and> \<not> list_ex is_Poke cs
           \<and> (e = InsufficientQuorum \<or> e = NotYetExpired \<or> (\<exists>msg. e = Rpc msg))"
  proof (cases "Median_Age m")
    case (Inl msg)
    from assms(1-3) this have "relay clk r k = Done (Some (Rpc msg)) ?r1 [CallAge]"
      by (rule relay_path_age_error)
    then show ?thesis by simp
  next
    case (Inr t)
    show ?thesis
    proof (cases "nowGate clk < t + OracleExpiration pair")
      case True
      with assms(1-3) Inr have "relay clk r k = Done (Some NotYetExpired) ?r1 [CallAge]"
        by (rule relay_path_not_expired)
      then show ?thesis by simp
    next
      case False
      with Inr have "relay clk r k = Done (Some InsufficientQuorum) ?r1 [CallAge, CallBar]"
        by (rule gate)
      then show ?thesis by simp
    qed
  qed
  moreover from this
  have "buffer (post (relay clk r k)) k = Some (Prices_ClearExpired (nowClear clk) ps)"
    by (auto simp: buffer_store)
  ultimately show ?thesis
    using gate by blast
qed

text \<open>Quorum 3 and two readings, neither expired, at a time when the oracle has expired.\<close>

theorem relay_below_quorum_aborts_witness:
  "relay (at_time 100) (relayer_with (contract 3) [reading 101 90, reading 101 95]) ''ETHUSD'' =
     Done (Some InsufficientQuorum)
       (store (relayer_with (contract 3) [reading 101 90, reading 101 95]) ''ETHUSD''
          (ethusd_holding (contract 3) [reading 101 90, reading 101 95])
          \<lparr>list_assetPair = ''ETHUSD'', list_expiration = 30,
             prices_list = [reading 101 90, reading 101 95]\<rparr>)
       [CallAge, CallBar]
   \<and> buffer (post (relay (at_time 100)
         (relayer_with (contract 3) [reading 101 90, reading 101 95]) ''ETHUSD'')) ''ETHUSD'' =
       Some \<lparr>list_assetPair = ''ETHUSD'', list_expiration = 30,
               prices_list = [reading 101 90, reading 101 95]\<rparr>"
proof -
  let ?xs = "[reading 101 90, reading 101 95]"
  let ?ps = "\<lparr>list_assetPair = ''ETHUSD'', list_expiration = 30, prices_list = ?xs\<rparr>"
  have reg: "pairs (relayer_with (contract 3) ?xs) ''ETHUSD'' =
      Some (ethusd_holding (contract 3) ?xs)"
    by (rule pairs_relayer_with) (simp add: reading_fields)
  have ps: "prices (ethusd_holding (contract 3) ?xs) = Some ?ps"
    by (simp add: ethusd_holding_fields)
  have m: "Median (ethusd_holding (contract 3) ?xs) = Some (contract 3)"
    by (simp add: ethusd_holding_fields)
  have age: "Median_Age (contract 3) = Inr 0"
    by (simp add: contract_fields)
  have gate: "\<not> nowGate (at_time 100) < 0 + OracleExpiration (ethusd_holding (contract 3) ?xs)"
    by (simp add: at_time_fields ethusd_holding_fields)
  have bar: "Median_Bar (contract 3) = Inr 3"
    by (simp add: contract_fields)
  have cl: "Prices_ClearExpired (nowClear (at_time 100)) ?ps = ?ps"
    by (simp add: Prices_ClearExpired_def at_time_fields reading_fields)
  have few: "Prices_Len (Prices_ClearExpired (nowClear (at_time 100)) ?ps) < 3"
    unfolding cl by (simp add: Prices_Len_def)
  from relay_below_quorum_aborts [OF reg ps m bar few] age gate
  have "relay (at_time 100) (relayer_with (contract 3) ?xs) ''ETHUSD'' =
      Done (Some InsufficientQuorum)
        (store (relayer_with (contract 3) ?xs) ''ETHUSD'' (ethusd_holding (contract 3) ?xs)
           (Prices_ClearExpired (nowClear (at_time 100)) ?ps))
        [CallAge, CallBar]"
    by blast
  then show ?thesis
    unfolding cl by (simp add: buffer_store)
qed

text \<open>
  The claim as stated fails when the oracle has not expired. At time 50 the contract's
  last update (time 0) is not yet 60 old; the list holds two unexpired readings and the
  contract's quorum is 3, yet the transition returns \<open>NotYetExpired\<close> after the age
  query alone, without asking for the quorum.
\<close>

theorem relay_below_quorum_counterexample:
  "relay (at_time 50) (relayer_with (contract 3) [reading 101 40, reading 101 45]) ''ETHUSD'' =
     Done (Some NotYetExpired)
       (store (relayer_with (contract 3) [reading 101 40, reading 101 45]) ''ETHUSD''
          (ethusd_holding (contract 3) [reading 101 40, reading 101 45])
          \<lparr>list_assetPair = ''ETHUSD'', list_expiration = 30,
             prices_list = [reading 101 40, reading 101 45]\<rparr>)
       [CallAge]
   \<and> Median_Bar (contract 3) = Inr 3
   \<and> Prices_Len \<lparr>list_assetPair = ''ETHUSD'', list_expiration = 30,
                   prices_list = [reading 101 40, reading 101 45]\<rparr> = 2"
proof -
  let ?xs = "[reading 101 40, reading 101 45]"
  let ?ps = "\<lparr>list_assetPair = ''ETHUSD'', list_expiration = 30, prices_list = ?xs\<rparr>"
  have reg: "pairs (relayer_with (contract 3) ?xs) ''ETHUSD'' =
      Some (ethusd_holding (contract 3) ?xs)"
    by (rule pairs_relayer_with) (simp add: reading_fields)
  have ps: "prices (ethusd_holding (contract 3) ?xs) = Some ?ps"
    by (simp add: ethusd_holding_fields)
  have m: "Median (ethusd_holding (contract 3) ?xs) = Some (contract 3)"
    by (simp add: ethusd_holding_fields)
  have age: "Median_Age (contract 3) = Inr 0"
    by (simp add: contract_fields)
  have gate: "nowGate (at_time 50) < 0 + OracleExpiration (ethusd_holding (contract 3) ?xs)"
    by (simp add: at_time_fields ethusd_holding_fields)
  have cl: "Prices_ClearExpired (nowClear (at_time 50)) ?ps = ?ps"
    by (simp add: Prices_ClearExpired_def at_time_fields reading_fields)
  from relay_path_not_expired [OF reg ps m age gate]
  show ?thesis
    unfolding cl by (simp add: contract_fields Prices_Len_def)
qed

subsection \<open>The submission\<close>



subsection \<open>Expired readings are dropped before the gates\<close>

text \<open>
  Claim C10. Every relay transition for a registered pair calls \<open>ClearExpired\<close> before
  any gate is evaluated. Whatever the transition returns, no reading older than
  \<open>priceExpiration\<close> is left in the pair's price list; after an abort with
  \<open>NotYetExpired\<close> or \<open>InsufficientQuorum\<close> the list is the one \<open>ClearExpired\<close>
  produced, after an abort with \<open>SpreadTooLow\<close> it is that list truncated; and when
  the list held an expired reading, the list after the transition differs from the list
  before it: the aborts do not leave the list unchanged.
\<close>

theorem relay_clears_expired_first:
  assumes "pairs r k = Some pair" and "prices pair = Some ps"
    and "relay clk r k = Done e r' cs"
  shows "\<exists>b. buffer r' k = Some b
      \<and> (\<forall>x\<in>set (prices_list b).
            x \<in> set (prices_list ps) \<and> nowClear clk - Age x \<le> list_expiration ps)
      \<and> (e = Some NotYetExpired \<or> e = Some InsufficientQuorum \<longrightarrow>
            b = Prices_ClearExpired (nowClear clk) ps)
      \<and> (e = Some SpreadTooLow \<longrightarrow>
            (\<exists>q. b = Prices_Truncate q (Prices_ClearExpired (nowClear clk) ps)))
      \<and> ((\<exists>x\<in>set (prices_list ps). list_expiration ps < nowClear clk - Age x) \<longrightarrow> b \<noteq> ps)"
proof -
  let ?ps1 = "Prices_ClearExpired (nowClear clk) ps"
  define fresh where
    "fresh b \<longleftrightarrow> (\<forall>x\<in>set (prices_list b).
        x \<in> set (prices_list ps) \<and> nowClear clk - Age x \<le> list_expiration ps)" for b :: Prices
  have f1: "fresh ?ps1"
    by (simp add: fresh_def set_ClearExpired)
  have f2: "fresh (Prices_Truncate q ?ps1)" for q
    using set_Truncate [of q ?ps1] by (auto simp: fresh_def set_ClearExpired)
  have f3: "fresh (Prices_Clear (Prices_Truncate q ?ps1))" for q
    by (simp add: fresh_def prices_list_Clear)
  have changed: "b \<noteq> ps"
    if "fresh b" and "\<exists>x\<in>set (prices_list ps). list_expiration ps < nowClear clk - Age x" for b
    using that by (auto simp: fresh_def)
  from relay_results [OF assms]
  consider
    (a) "buffer r' k = Some ?ps1" "e \<noteq> Some SpreadTooLow"
  | (b) q where "buffer r' k = Some (Prices_Truncate q ?ps1)"
      "e \<noteq> Some NotYetExpired" "e \<noteq> Some InsufficientQuorum"
  | (c) q where "buffer r' k = Some (Prices_Clear (Prices_Truncate q ?ps1))"
      "e \<noteq> Some NotYetExpired" "e \<noteq> Some InsufficientQuorum" "e \<noteq> Some SpreadTooLow"
    by blast
  then show ?thesis
  proof cases
    case a
    with f1 changed [OF f1] show ?thesis
      unfolding fresh_def by auto
  next
    case b
    with f2 [of q] changed [OF f2 [of q]] show ?thesis
      unfolding fresh_def by auto
  next
    case c
    with f3 [of q] changed [OF f3 [of q]] show ?thesis
      unfolding fresh_def by auto
  qed
qed

text \<open>
  Quorum 3 and two readings, of which the one taken at time 60 has expired at time 100:
  the transition aborts with \<open>InsufficientQuorum\<close> and the list has lost that reading.
\<close>

theorem relay_clears_expired_first_witness:
  "buffer (post (relay (at_time 100)
       (relayer_with (contract 3) [reading 101 60, reading 101 95]) ''ETHUSD'')) ''ETHUSD'' =
     Some \<lparr>list_assetPair = ''ETHUSD'', list_expiration = 30, prices_list = [reading 101 95]\<rparr>
   \<and> buffer (post (relay (at_time 100)
       (relayer_with (contract 3) [reading 101 60, reading 101 95]) ''ETHUSD'')) ''ETHUSD'' \<noteq>
     buffer (relayer_with (contract 3) [reading 101 60, reading 101 95]) ''ETHUSD''"
proof -
  let ?xs = "[reading 101 60, reading 101 95]"
  let ?ps = "\<lparr>list_assetPair = ''ETHUSD'', list_expiration = 30, prices_list = ?xs\<rparr>"
  let ?ps1 = "\<lparr>list_assetPair = ''ETHUSD'', list_expiration = 30,
                prices_list = [reading 101 95]\<rparr>"
  let ?r = "relayer_with (contract 3) ?xs"
  have reg: "pairs ?r ''ETHUSD'' = Some (ethusd_holding (contract 3) ?xs)"
    by (rule pairs_relayer_with) (simp add: reading_fields)
  have ps: "prices (ethusd_holding (contract 3) ?xs) = Some ?ps"
    by (simp add: ethusd_holding_fields)
  have m: "Median (ethusd_holding (contract 3) ?xs) = Some (contract 3)"
    by (simp add: ethusd_holding_fields)
  have age: "Median_Age (contract 3) = Inr 0"
    by (simp add: contract_fields)
  have gate: "\<not> nowGate (at_time 100) < 0 + OracleExpiration (ethusd_holding (contract 3) ?xs)"
    by (simp add: at_time_fields ethusd_holding_fields)
  have bar: "Median_Bar (contract 3) = Inr 3"
    by (simp add: contract_fields)
  have cl: "Prices_ClearExpired (nowClear (at_time 100)) ?ps = ?ps1"
    by (simp add: Prices_ClearExpired_def at_time_fields reading_fields)
  have few: "Prices_Len (Prices_ClearExpired (nowClear (at_time 100)) ?ps) < 3"
    unfolding cl by (simp add: Prices_Len_def)
  have run: "relay (at_time 100) ?r ''ETHUSD'' =
      Done (Some InsufficientQuorum)
        (store ?r ''ETHUSD'' (ethusd_holding (contract 3) ?xs) ?ps1) [CallAge, CallBar]"
    using relay_path_quorum [OF reg ps m age gate bar few] unfolding cl .
  have before: "buffer ?r ''ETHUSD'' = Some ?ps"
    by (simp add: buffer_def reg ethusd_holding_fields)
  from relay_clears_expired_first [OF reg ps run]
  obtain b where "buffer (store ?r ''ETHUSD'' (ethusd_holding (contract 3) ?xs) ?ps1) ''ETHUSD'' =
      Some b" and "b = Prices_ClearExpired (nowClear (at_time 100)) ?ps"
    by blast
  then have after: "buffer (post (relay (at_time 100) ?r ''ETHUSD'')) ''ETHUSD'' = Some ?ps1"
    unfolding cl by (simp add: run)
  have "?ps1 \<noteq> ?ps"
    by simp
  with after before show ?thesis
    by simp
qed

subsection \<open>Collect for a pair that is not registered\<close>

lemma Collect_price_unregistered:
  assumes "pairs r (pAssetPair price) = None" and "Val price \<noteq> 0"
  shows "Collect_price r price = Panic"
  using assms by (simp add: Collect_price_def pairs_index_def zeroPair_def)

lemma Collect_price_not_UnknownPair: "Collect_price r price \<noteq> Return (Some UnknownPair, r')"
  by (auto simp: Collect_price_def Prices_Add_def split: option.splits)

text \<open>
  Claim C1, at a relayer with no pair registered and a reading of value 1 for ETHUSD:
  \<open>Collect\<close> indexes the map without asking whether the key is there, receives the
  zero \<open>Pair\<close>, whose \<open>prices\<close> is \<open>nil\<close>, and calls \<open>Add\<close> on it. It does not
  return \<open>UnknownPair\<close>.
\<close>

theorem Collect_unregistered_pair_panics:
  "Collect_price (NewRelayer 1) (reading 1 0) = Panic
   \<and> pairs (NewRelayer 1) (pAssetPair (reading 1 0)) = None
   \<and> prices (pairs_index (pairs (NewRelayer 1)) (pAssetPair (reading 1 0))) = None"
  by (simp add: Collect_price_def NewRelayer_def pairs_index_def zeroPair_def reading_fields)

subsection \<open>The spread gate\<close>

text \<open>
  Claim C2, at on-chain price 100 and three readings of 50 with quorum 3 and
  \<open>OracleSpread = 2.0\<close>: the spread is \<open>(50 - 100) / 100 * 100 = -50\<close>, whose absolute
  value 50 is not below 2, and \<open>relay\<close> compares the signed spread: it returns
  \<open>SpreadTooLow\<close> after the price query and submits nothing.
\<close>

theorem relay_price_drop_is_spread_too_low:
  "err (relay (at_time 100)
      (relayer_with (contract 3) [reading 50 90, reading 50 95, reading 50 96]) ''ETHUSD'') =
     Some SpreadTooLow
   \<and> calls (relay (at_time 100)
      (relayer_with (contract 3) [reading 50 90, reading 50 95, reading 50 96]) ''ETHUSD'') =
     [CallAge, CallBar, CallPrice]
   \<and> calcSpread 100 50 = Return (Finite (- 50))
   \<and> float64_less (Finite (- 50)) 2
   \<and> \<not> float64_less (float64_abs (Finite (- 50))) 2"
proof -
  let ?xs = "[reading 50 90, reading 50 95, reading 50 96]"
  let ?ps = "\<lparr>list_assetPair = ''ETHUSD'', list_expiration = 30, prices_list = ?xs\<rparr>"
  let ?m = "contract 3"
  have reg: "pairs (relayer_with ?m ?xs) ''ETHUSD'' = Some (ethusd_holding ?m ?xs)"
    by (rule pairs_relayer_with) (simp add: reading_fields)
  have ps: "prices (ethusd_holding ?m ?xs) = Some ?ps"
    by (simp add: ethusd_holding_fields)
  have m: "Median (ethusd_holding ?m ?xs) = Some ?m"
    by (simp add: ethusd_holding_fields)
  have age: "Median_Age ?m = Inr 0"
    by (simp add: contract_fields)
  have gate: "\<not> nowGate (at_time 100) < 0 + OracleExpiration (ethusd_holding ?m ?xs)"
    by (simp add: at_time_fields ethusd_holding_fields)
  have bar: "Median_Bar ?m = Inr 3"
    by (simp add: contract_fields)
  have cl: "Prices_ClearExpired (nowClear (at_time 100)) ?ps = ?ps"
    by (simp add: Prices_ClearExpired_def at_time_fields reading_fields)
  have enough: "\<not> Prices_Len (Prices_ClearExpired (nowClear (at_time 100)) ?ps) < 3"
    unfolding cl by (simp add: Prices_Len_def)
  have tr: "Prices_Truncate 3 ?ps = ?ps"
    by (simp add: Prices_Truncate_def median_of_def reading_fields Let_def)
  have med: "Prices_Median (Prices_Truncate 3 (Prices_ClearExpired (nowClear (at_time 100)) ?ps)) =
      Some 50"
    unfolding cl tr by (simp add: Prices_Median_def reading_fields Let_def)
  have price: "Median_Price ?m = Inr 100"
    by (simp add: contract_fields)
  have spread: "calcSpread 100 50 = Return (Finite (- 50))"
    by (simp add: calcSpread_def)
  have low: "float64_less (Finite (- 50)) (OracleSpread (ethusd_holding ?m ?xs))"
    by (simp add: ethusd_holding_fields)
  from relay_path_spread [OF reg ps m age gate bar enough med price spread low] spread
  show ?thesis
    by simp
qed

subsection \<open>The mutex during a tick\<close>

lemma range_pairs_no_lock:
  "range_pairs clk onS onE ks r = Return (r', evs) \<Longrightarrow> Lock \<notin> set evs \<and> Unlock \<notin> set evs"
proof (induction ks arbitrary: r r' evs)
  case Nil
  then show ?case by simp
next
  case (Cons k ks)
  show ?case
  proof (cases "pairs r k")
    case None
    with Cons show ?thesis by simp
  next
    case (Some pair)
    show ?thesis
    proof (cases "prices pair")
      case None
      with Some Cons.prems show ?thesis by simp
    next
      case ps: (Some ps)
      show ?thesis
      proof (cases "Prices_Len ps = 0")
        case True
        with Some ps Cons show ?thesis by simp
      next
        case False
        from Some ps False Cons.prems obtain e r1 cs r2 evs2 where
          "relay (clk k) r k = Done e r1 cs"
          and rest: "range_pairs clk onS onE ks r1 = Return (r2, evs2)"
          and evs: "evs = map (Net k) cs @ sends onS onE k e @ evs2"
          by (auto split: step.splits outcome.splits prod.splits)
        from Cons.IH [OF rest] have "Lock \<notin> set evs2 \<and> Unlock \<notin> set evs2" .
        moreover have "Lock \<notin> set (sends onS onE k e) \<and> Unlock \<notin> set (sends onS onE k e)"
          by (simp add: sends_def split: option.splits)
        ultimately show ?thesis
          unfolding evs by auto
      qed
    qed
  qed
qed

lemma net_calls_append:
  "Lock \<notin> set evs \<Longrightarrow> Unlock \<notin> set evs \<Longrightarrow>
   net_calls h (evs @ rest) = map (\<lambda>c. (c, h)) (map fst (net_calls h evs)) @ net_calls h rest"
  by (induction h evs rule: net_calls.induct) simp_all

text \<open>The tick of the relayer holding two readings and quorum 3, at time 100.\<close>

lemma tick_example:
  "tick (tick_at 100) True True [''ETHUSD'']
     (relayer_with (contract 3) [reading 101 90, reading 101 95]) =
   Return (store (relayer_with (contract 3) [reading 101 90, reading 101 95]) ''ETHUSD''
             (ethusd_holding (contract 3) [reading 101 90, reading 101 95])
             \<lparr>list_assetPair = ''ETHUSD'', list_expiration = 30,
                prices_list = [reading 101 90, reading 101 95]\<rparr>,
           [Lock, Net ''ETHUSD'' CallAge, Net ''ETHUSD'' CallBar,
            SendErr InsufficientQuorum, Unlock])"
proof -
  let ?xs = "[reading 101 90, reading 101 95]"
  let ?ps = "\<lparr>list_assetPair = ''ETHUSD'', list_expiration = 30, prices_list = ?xs\<rparr>"
  let ?r = "relayer_with (contract 3) ?xs"
  have reg: "pairs ?r ''ETHUSD'' = Some (ethusd_holding (contract 3) ?xs)"
    by (rule pairs_relayer_with) (simp add: reading_fields)
  have ps: "prices (ethusd_holding (contract 3) ?xs) = Some ?ps"
    by (simp add: ethusd_holding_fields)
  have m: "Median (ethusd_holding (contract 3) ?xs) = Some (contract 3)"
    by (simp add: ethusd_holding_fields)
  have age: "Median_Age (contract 3) = Inr 0"
    by (simp add: contract_fields)
  have gate: "\<not> nowGate (at_time 100) < 0 + OracleExpiration (ethusd_holding (contract 3) ?xs)"
    by (simp add: at_time_fields ethusd_holding_fields)
  have bar: "Median_Bar (contract 3) = Inr 3"
    by (simp add: contract_fields)
  have cl: "Prices_ClearExpired (nowClear (at_time 100)) ?ps = ?ps"
    by (simp add: Prices_ClearExpired_def at_time_fields reading_fields)
  have few: "Prices_Len (Prices_ClearExpired (nowClear (at_time 100)) ?ps) < 3"
    unfolding cl by (simp add: Prices_Len_def)
  have run: "relay (at_time 100) ?r ''ETHUSD'' =
      Done (Some InsufficientQuorum)
        (store ?r ''ETHUSD'' (ethusd_holding (contract 3) ?xs) ?ps) [CallAge, CallBar]"
    using relay_path_quorum [OF reg ps m age gate bar few] unfolding cl .
  have "Prices_Len ?ps \<noteq> 0"
    by (simp add: Prices_Len_def)
  then show ?thesis
    by (simp add: tick_def tick_at_def reg ps run sends_def)
qed

text \<open>
  Claim C9, as the code has it. In every tick that returns, the goroutine of \<open>Start\<close>
  takes the mutex first and releases it last, and every network call of the relay
  transitions of the tick (age query, quorum query, price query, submission) is made
  while the mutex is held: the mutex that \<open>Collect\<close> and \<open>AddPair\<close> wait for is not
  released around the calls.
\<close>

theorem tick_calls_hold_lock:
  assumes "tick clk onS onE ks r = Return (r', evs)"
  shows "list_all snd (net_calls False evs)
       \<and> (\<exists>body. evs = Lock # body @ [Unlock] \<and> Lock \<notin> set body \<and> Unlock \<notin> set body)"
proof -
  from assms obtain body where
    body: "range_pairs clk onS onE ks r = Return (r', body)"
    and evs: "evs = Lock # body @ [Unlock]"
    by (auto simp: tick_def split: outcome.splits prod.splits)
  from range_pairs_no_lock [OF body] have nl: "Lock \<notin> set body" "Unlock \<notin> set body"
    by simp_all
  have "net_calls False evs = map (\<lambda>c. (c, True)) (map fst (net_calls True body))"
    unfolding evs using net_calls_append [OF nl, of True "[Unlock]"] by simp
  then have "list_all snd (net_calls False evs)"
    by (simp add: list_all_iff)
  with evs nl show ?thesis by blast
qed

theorem tick_calls_hold_lock_witness:
  "list_all snd (net_calls False
     [Lock, Net ''ETHUSD'' CallAge, Net ''ETHUSD'' CallBar, SendErr InsufficientQuorum, Unlock])
   \<and> events_of (tick (tick_at 100) True True [''ETHUSD'']
        (relayer_with (contract 3) [reading 101 90, reading 101 95])) =
     [Lock, Net ''ETHUSD'' CallAge, Net ''ETHUSD'' CallBar, SendErr InsufficientQuorum, Unlock]"
  using tick_calls_hold_lock [OF tick_example] by (simp add: tick_example)

text \<open>
  The claim as stated fails on that tick: its two network calls, the age query and the
  quorum query, are both made with the mutex held.
\<close>

theorem tick_calls_without_lock_counterexample:
  "net_calls False (events_of (tick (tick_at 100) True True [''ETHUSD'']
      (relayer_with (contract 3) [reading 101 90, reading 101 95]))) =
     [(CallAge, True), (CallBar, True)]"
  by (simp add: tick_example)

section \<open>Properties of the event scanner\<close>

subsection \<open>The ranges of the cursor\<close>

lemma chunks_Nil: "limit = 0 \<or> hi < lo \<Longrightarrow> chunks limit lo hi = []"
  by (subst chunks.simps) simp

lemma chunks_Cons:
  "0 < limit \<Longrightarrow> lo \<le> hi \<Longrightarrow>
     chunks limit lo hi =
       (lo, min hi (lo + limit - 1)) # chunks limit (min hi (lo + limit - 1) + 1) hi"
  by (subst chunks.simps) simp

lemma chunks_bounds:
  "0 < limit \<Longrightarrow> (a, b) \<in> set (chunks limit lo hi) \<Longrightarrow>
     lo \<le> a \<and> a \<le> b \<and> b \<le> hi \<and> b < a + limit"
proof (induction limit lo hi rule: chunks.induct)
  case (1 limit lo hi)
  show ?case
  proof (cases "hi < lo")
    case True
    with "1.prems" show ?thesis by (simp add: chunks_Nil)
  next
    case False
    let ?t = "min hi (lo + limit - 1)"
    from False "1.prems" have mem: "(a, b) = (lo, ?t) \<or> (a, b) \<in> set (chunks limit (?t + 1) hi)"
      by (simp add: chunks_Cons [of limit lo hi])
    then show ?thesis
    proof
      assume "(a, b) = (lo, ?t)"
      with False "1.prems"(1) show ?thesis by auto
    next
      assume "(a, b) \<in> set (chunks limit (?t + 1) hi)"
      with "1.IH" False "1.prems"(1) have "?t + 1 \<le> a \<and> a \<le> b \<and> b \<le> hi \<and> b < a + limit"
        by simp
      then show ?thesis by auto
    qed
  qed
qed

lemma chunks_ends:
  "0 < limit \<Longrightarrow> lo \<le> hi \<Longrightarrow>
     chunks limit lo hi \<noteq> [] \<and> fst (hd (chunks limit lo hi)) = lo
     \<and> snd (last (chunks limit lo hi)) = hi"
proof (induction limit lo hi rule: chunks.induct)
  case (1 limit lo hi)
  let ?t = "min hi (lo + limit - 1)"
  from "1.prems" have unfold: "chunks limit lo hi = (lo, ?t) # chunks limit (?t + 1) hi"
    by (rule chunks_Cons)
  show ?case
  proof (cases "?t + 1 \<le> hi")
    case True
    with "1.IH" "1.prems" have "chunks limit (?t + 1) hi \<noteq> [] \<and> snd (last (chunks limit (?t + 1) hi)) = hi"
      by simp
    with unfold show ?thesis by simp
  next
    case False
    then have "chunks limit (?t + 1) hi = []"
      by (simp add: chunks_Nil)
    moreover from False "1.prems" have "?t = hi" by simp
    ultimately show ?thesis using unfold by simp
  qed
qed

lemma chunks_contiguous: "contiguous (chunks limit lo hi)"
proof (induction limit lo hi rule: chunks.induct)
  case (1 limit lo hi)
  show ?case
  proof (cases "limit = 0 \<or> hi < lo")
    case True
    then show ?thesis by (simp add: chunks_Nil)
  next
    case False
    let ?t = "min hi (lo + limit - 1)"
    from False have unfold: "chunks limit lo hi = (lo, ?t) # chunks limit (?t + 1) hi"
      by (simp add: chunks_Cons)
    from False "1.IH" have IH: "contiguous (chunks limit (?t + 1) hi)" by simp
    show ?thesis
    proof (cases "chunks limit (?t + 1) hi")
      case Nil
      with unfold show ?thesis by simp
    next
      case (Cons rg rs)
      have "?t + 1 \<le> hi"
      proof (rule ccontr)
        assume "\<not> ?t + 1 \<le> hi"
        then have "chunks limit (?t + 1) hi = []" by (simp add: chunks_Nil)
        with Cons show False by simp
      qed
      with False chunks_ends [of limit "?t + 1" hi] Cons have "fst rg = ?t + 1"
        by simp
      with IH Cons unfold show ?thesis by simp
    qed
  qed
qed

lemma chunks_ascending: "0 < limit \<Longrightarrow> ascending (chunks limit lo hi)"
proof (induction limit lo hi rule: chunks.induct)
  case (1 limit lo hi)
  show ?case
  proof (cases "hi < lo")
    case True
    then show ?thesis by (simp add: chunks_Nil ascending_def)
  next
    case False
    let ?t = "min hi (lo + limit - 1)"
    from False "1.prems" have unfold: "chunks limit lo hi = (lo, ?t) # chunks limit (?t + 1) hi"
      by (simp add: chunks_Cons)
    from False "1.IH" "1.prems" have IH: "ascending (chunks limit (?t + 1) hi)" by simp
    have "?t < fst rg" if "rg \<in> set (chunks limit (?t + 1) hi)" for rg
      using chunks_bounds [OF "1.prems", of "fst rg" "snd rg" "?t + 1" hi] that by simp
    with IH unfold show ?thesis by (simp add: ascending_def)
  qed
qed

lemma chunks_blocks: "0 < limit \<Longrightarrow> blocks_of (chunks limit lo hi) = {lo..hi}"
proof (induction limit lo hi rule: chunks.induct)
  case (1 limit lo hi)
  show ?case
  proof (cases "hi < lo")
    case True
    then show ?thesis by (simp add: chunks_Nil blocks_of_def)
  next
    case False
    let ?t = "min hi (lo + limit - 1)"
    from False "1.prems" have unfold: "chunks limit lo hi = (lo, ?t) # chunks limit (?t + 1) hi"
      by (simp add: chunks_Cons)
    from False "1.IH" "1.prems" have IH: "blocks_of (chunks limit (?t + 1) hi) = {?t + 1..hi}" by simp
    have "blocks_of (chunks limit lo hi) = {lo..?t} \<union> {?t + 1..hi}"
      unfolding unfold using IH by (simp add: blocks_of_def)
    also from False "1.prems" have "\<dots> = {lo..hi}" by auto
    finally show ?thesis .
  qed
qed

lemma advance_chunks:
  "0 < limit \<Longrightarrow> lo \<le> hi \<Longrightarrow> advance (\<lambda>rg. True) lp (chunks limit lo hi) = hi"
proof (induction limit lo hi arbitrary: lp rule: chunks.induct)
  case (1 limit lo hi)
  let ?t = "min hi (lo + limit - 1)"
  from "1.prems" have unfold: "chunks limit lo hi = (lo, ?t) # chunks limit (?t + 1) hi"
    by (rule chunks_Cons)
  show ?case
  proof (cases "?t + 1 \<le> hi")
    case True
    with "1.IH" "1.prems" have "advance (\<lambda>rg. True) ?t (chunks limit (?t + 1) hi) = hi"
      by simp
    with unfold show ?thesis by simp
  next
    case False
    then have "chunks limit (?t + 1) hi = []"
      by (simp add: chunks_Nil)
    moreover from False "1.prems" have "?t = hi" by simp
    ultimately show ?thesis using unfold by simp
  qed
qed

text \<open>
  Claim C6. For a positive limit (with a limit of 0 no range of width at most limit
  exists) and \<open>head - confirmations > lastProcessed\<close>, the ranges of the cursor are in
  ascending order without overlap, each starts right after the one before it ends,
  each holds at least one and at most \<open>limit\<close> blocks, and together they cover exactly
  \<open>(lastProcessed, head - confirmations]\<close>; when every range succeeds,
  \<open>lastProcessed\<close> ends at \<open>head - confirmations\<close>. For head 1000, 2 confirmations,
  limit 100 and \<open>lastProcessed\<close> 700 the ranges are \<open>[701,800]\<close>, \<open>[801,900]\<close>,
  \<open>[901,998]\<close> in this order, and \<open>lastProcessed\<close> ends at 998.
\<close>

theorem BlockRangeCursor_covers:
  assumes "0 < limit" and "lastProcessed < head - confirmations"
  shows "ascending (BlockRangeCursor head confirmations limit lastProcessed)
       \<and> contiguous (BlockRangeCursor head confirmations limit lastProcessed)
       \<and> (\<forall>(lo, hi) \<in> set (BlockRangeCursor head confirmations limit lastProcessed).
             lo \<le> hi \<and> hi - lo + 1 \<le> limit)
       \<and> blocks_of (BlockRangeCursor head confirmations limit lastProcessed) =
             {lastProcessed <.. head - confirmations}
       \<and> advance (\<lambda>rg. True) lastProcessed
             (BlockRangeCursor head confirmations limit lastProcessed) = head - confirmations
       \<and> BlockRangeCursor 1000 2 100 700 = [(701, 800), (801, 900), (901, 998)]
       \<and> advance (\<lambda>rg. True) 700 (BlockRangeCursor 1000 2 100 700) = 998"
proof -
  let ?safe = "head - confirmations"
  have rs: "BlockRangeCursor head confirmations limit lastProcessed =
      chunks limit (lastProcessed + 1) ?safe"
    using assms(2) by (simp add: BlockRangeCursor_def)
  have width: "lo \<le> hi \<and> hi - lo + 1 \<le> limit"
    if "(lo, hi) \<in> set (chunks limit (lastProcessed + 1) ?safe)" for lo hi
    using chunks_bounds [OF assms(1) that] by arith
  have cover: "blocks_of (chunks limit (lastProcessed + 1) ?safe) = {lastProcessed <.. ?safe}"
    using chunks_blocks [OF assms(1), of "lastProcessed + 1" ?safe]
    by (simp add: atLeastSucAtMost_greaterThanAtMost)
  have adv: "advance (\<lambda>rg. True) lastProcessed (chunks limit (lastProcessed + 1) ?safe) = ?safe"
    using assms by (intro advance_chunks) simp_all
  have ex: "BlockRangeCursor 1000 2 100 700 = [(701, 800), (801, 900), (901, 998)]"
    by (simp add: BlockRangeCursor_def chunks.simps)
  have "advance (\<lambda>rg. True) 700 (BlockRangeCursor 1000 2 100 700) = 998"
    unfolding ex by simp
  with ex width cover adv chunks_ascending [OF assms(1)] chunks_contiguous show ?thesis
    unfolding rs by auto
qed

text \<open>
  The second tick of \<open>Test_teleportEventProvider_FetchEventsRoutine\<close>: head 119, one
  confirmation, limit 10, cursor at 99; the test asserts the ranges \<open>[100,109]\<close> and
  \<open>[110,118]\<close>.
\<close>

theorem BlockRangeCursor_covers_witness:
  "ascending (BlockRangeCursor 119 1 10 99)
   \<and> contiguous (BlockRangeCursor 119 1 10 99)
   \<and> blocks_of (BlockRangeCursor 119 1 10 99) = {99 <.. 118}
   \<and> advance (\<lambda>rg. True) 99 (BlockRangeCursor 119 1 10 99) = 118
   \<and> BlockRangeCursor 119 1 10 99 = [(100, 109), (110, 118)]"
proof -
  have "BlockRangeCursor 119 1 10 99 = [(100, 109), (110, 118)]"
    by (simp add: BlockRangeCursor_def chunks.simps)
  with BlockRangeCursor_covers [of 10 99 119 1] show ?thesis
    by simp
qed

subsection \<open>The ranges of the backfill routine\<close>

lemma prefetch_samples_Cons:
  "0 < limit \<Longrightarrow>
     prefetch_samples ts target limit hi =
       hi # (if ts hi \<le> target \<or> hi < limit then []
             else prefetch_samples ts target limit (hi - limit))"
  by (subst prefetch_samples.simps) simp

lemma prefetch_samples_le:
  "0 < limit \<Longrightarrow> b \<in> set (prefetch_samples ts target limit hi) \<Longrightarrow> b \<le> hi"
proof (induction ts target limit hi rule: prefetch_samples.induct)
  case (1 ts target limit hi)
  show ?case
  proof (cases "ts hi \<le> target \<or> hi < limit")
    case True
    with "1.prems" show ?thesis
      by (simp add: prefetch_samples_Cons [of limit ts target hi])
  next
    case False
    with "1.prems" have "b = hi \<or> b \<in> set (prefetch_samples ts target limit (hi - limit))"
      by (simp add: prefetch_samples_Cons [of limit ts target hi])
    then show ?thesis
    proof
      assume "b = hi"
      then show ?thesis by simp
    next
      assume "b \<in> set (prefetch_samples ts target limit (hi - limit))"
      with "1.IH" False "1.prems"(1) have "b \<le> hi - limit" by simp
      then show ?thesis by simp
    qed
  qed
qed

lemma prefetch_samples_stride:
  "0 < limit \<Longrightarrow> stride_down limit (prefetch_samples ts target limit hi)"
proof (induction ts target limit hi rule: prefetch_samples.induct)
  case (1 ts target limit hi)
  show ?case
  proof (cases "ts hi \<le> target \<or> hi < limit")
    case True
    with "1.prems" show ?thesis
      by (simp add: prefetch_samples_Cons [of limit ts target hi])
  next
    case False
    with "1.IH" "1.prems" have IH: "stride_down limit (prefetch_samples ts target limit (hi - limit))"
      by simp
    from "1.prems" have nxt: "prefetch_samples ts target limit (hi - limit) =
        (hi - limit) # (if ts (hi - limit) \<le> target \<or> hi - limit < limit then []
             else prefetch_samples ts target limit (hi - limit - limit))"
      by (rule prefetch_samples_Cons)
    from False "1.prems" have "prefetch_samples ts target limit hi =
        hi # prefetch_samples ts target limit (hi - limit)"
      by (simp add: prefetch_samples_Cons [of limit ts target hi])
    moreover from IH nxt False have "stride_down limit (hi # prefetch_samples ts target limit (hi - limit))"
      by (cases "ts (hi - limit) \<le> target \<or> hi - limit < limit") auto
    ultimately show ?thesis by simp
  qed
qed

lemma prefetch_samples_apart:
  "0 < limit \<Longrightarrow> sorted_wrt (\<lambda>x y. y + limit \<le> x) (prefetch_samples ts target limit hi)"
proof (induction ts target limit hi rule: prefetch_samples.induct)
  case (1 ts target limit hi)
  show ?case
  proof (cases "ts hi \<le> target \<or> hi < limit")
    case True
    with "1.prems" show ?thesis
      by (simp add: prefetch_samples_Cons [of limit ts target hi])
  next
    case False
    with "1.IH" "1.prems"
    have IH: "sorted_wrt (\<lambda>x y. y + limit \<le> x) (prefetch_samples ts target limit (hi - limit))"
      by simp
    have "b + limit \<le> hi" if "b \<in> set (prefetch_samples ts target limit (hi - limit))" for b
    proof -
      from that have "b \<le> hi - limit"
        using prefetch_samples_le [OF "1.prems"] by blast
      moreover from False have "limit \<le> hi" by simp
      ultimately show ?thesis by arith
    qed
    with IH False "1.prems" show ?thesis
      by (simp add: prefetch_samples_Cons [of limit ts target hi])
  qed
qed

lemma prefetch_samples_stop:
  "0 < limit \<Longrightarrow>
     prefetch_samples ts target limit hi \<noteq> []
     \<and> hd (prefetch_samples ts target limit hi) = hi
     \<and> (ts (last (prefetch_samples ts target limit hi)) \<le> target
          \<or> last (prefetch_samples ts target limit hi) < limit)
     \<and> (\<forall>b \<in> set (butlast (prefetch_samples ts target limit hi)). target < ts b)"
proof (induction ts target limit hi rule: prefetch_samples.induct)
  case (1 ts target limit hi)
  show ?case
  proof (cases "ts hi \<le> target \<or> hi < limit")
    case True
    with "1.prems" show ?thesis
      by (simp add: prefetch_samples_Cons [of limit ts target hi])
  next
    case False
    let ?rest = "prefetch_samples ts target limit (hi - limit)"
    from False "1.IH" "1.prems" have IH: "?rest \<noteq> []"
      "ts (last ?rest) \<le> target \<or> last ?rest < limit"
      "\<forall>b \<in> set (butlast ?rest). target < ts b"
      by simp_all
    from False "1.prems" have unfold: "prefetch_samples ts target limit hi = hi # ?rest"
      by (simp add: prefetch_samples_Cons [of limit ts target hi])
    from IH False show ?thesis
      unfolding unfold by auto
  qed
qed

lemma adjacent_down_chunks:
  "0 < limit \<Longrightarrow> stride_down limit bs \<Longrightarrow> adjacent_down (map (chunk_ending_at limit) bs)"
  by (induction limit bs rule: stride_down.induct) (auto simp: chunk_ending_at_def)

lemma descending_chunks:
  assumes "0 < limit" and "sorted_wrt (\<lambda>x y. y + limit \<le> x) bs"
  shows "descending (map (chunk_ending_at limit) bs)"
proof -
  have "sorted_wrt (\<lambda>x y. y < x + 1 - limit) bs"
    using assms(2) by (rule sorted_wrt_mono_rel [rotated]) (use assms(1) in arith)
  then show ?thesis
    by (simp add: descending_def sorted_wrt_map chunk_ending_at_def)
qed

lemma sampled_chunks: "sampled (map (chunk_ending_at limit) bs) = bs"
  by (induction bs) (simp_all add: sampled_def chunk_ending_at_def)

text \<open>
  The run of \<open>Test_teleportEventProvider_PrefetchEventsRoutine\<close>: the ranges are the
  three the test asserts, in the order it asserts them.
\<close>

lemma prefetch_test_run:
  "PrefetchEventsRoutine prefetch_test_ts 1000 100 1 15 100 = [(85, 99), (70, 84), (55, 69)]"
  by (simp add: PrefetchEventsRoutine_def prefetch_samples.simps prefetch_test_ts_def
      chunk_ending_at_def)

text \<open>
  Claim C7, as the test has it. For a positive limit the backfill routine starts at the
  block where the live routine begins (\<open>head - confirmations\<close>: its first range ends
  there) and walks backward in strides of exactly \<open>limit\<close> blocks. At each block it
  samples it fetches the chunk of \<open>limit\<close> blocks that ends at that block (cut only
  at block 0), so its ranges are in strictly descending order and each ends right
  before the one before it starts. Every sampled block but the last is younger than
  \<open>now - prefetchPeriod\<close>; the last range, after which the routine returns and asks
  for nothing more, ends at the boundary block, the first sampled block whose timestamp
  is at or before \<open>now - prefetchPeriod\<close> (or the walk has come within \<open>limit\<close> of
  block 0). On the test's run the ranges are \<open>[85,99]\<close>, \<open>[70,84]\<close>, \<open>[55,69]\<close>.
\<close>

theorem PrefetchEventsRoutine_walks_backward:
  assumes "0 < limit"
  shows "PrefetchEventsRoutine ts now prefetchPeriod confirmations limit head \<noteq> []
       \<and> snd (hd (PrefetchEventsRoutine ts now prefetchPeriod confirmations limit head)) =
           head - confirmations
       \<and> (\<forall>(lo, hi) \<in> set (PrefetchEventsRoutine ts now prefetchPeriod confirmations limit head).
             lo = hi + 1 - limit \<and> lo \<le> hi)
       \<and> stride_down limit
           (sampled (PrefetchEventsRoutine ts now prefetchPeriod confirmations limit head))
       \<and> descending (PrefetchEventsRoutine ts now prefetchPeriod confirmations limit head)
       \<and> adjacent_down (PrefetchEventsRoutine ts now prefetchPeriod confirmations limit head)
       \<and> (\<forall>b \<in> set (butlast (sampled
               (PrefetchEventsRoutine ts now prefetchPeriod confirmations limit head))).
             now - prefetchPeriod < ts b)
       \<and> (ts (last (sampled
               (PrefetchEventsRoutine ts now prefetchPeriod confirmations limit head)))
             \<le> now - prefetchPeriod
           \<or> last (sampled
               (PrefetchEventsRoutine ts now prefetchPeriod confirmations limit head)) < limit)
       \<and> PrefetchEventsRoutine prefetch_test_ts 1000 100 1 15 100 =
           [(85, 99), (70, 84), (55, 69)]"
proof -
  let ?bs = "prefetch_samples ts (now - prefetchPeriod) limit (head - confirmations)"
  have rs: "PrefetchEventsRoutine ts now prefetchPeriod confirmations limit head =
      map (chunk_ending_at limit) ?bs"
    by (simp add: PrefetchEventsRoutine_def)
  from prefetch_samples_stop [OF assms, of ts "now - prefetchPeriod" "head - confirmations"]
  have stop: "?bs \<noteq> []" "hd ?bs = head - confirmations"
    "ts (last ?bs) \<le> now - prefetchPeriod \<or> last ?bs < limit"
    "\<forall>b \<in> set (butlast ?bs). now - prefetchPeriod < ts b"
    by simp_all
  from stop(1,2) have first: "snd (hd (map (chunk_ending_at limit) ?bs)) = head - confirmations"
    by (simp add: hd_map chunk_ending_at_def)
  have width: "\<forall>(lo, hi) \<in> set (map (chunk_ending_at limit) ?bs). lo = hi + 1 - limit \<and> lo \<le> hi"
    using assms by (auto simp: chunk_ending_at_def)
  have stride: "stride_down limit ?bs"
    using assms by (rule prefetch_samples_stride)
  have desc: "descending (map (chunk_ending_at limit) ?bs)"
    using assms prefetch_samples_apart [OF assms] by (rule descending_chunks)
  have adj: "adjacent_down (map (chunk_ending_at limit) ?bs)"
    using assms stride by (rule adjacent_down_chunks)
  from stop first width stride desc adj prefetch_test_run show ?thesis
    unfolding rs sampled_chunks by simp
qed

theorem PrefetchEventsRoutine_walks_backward_witness:
  "snd (hd (PrefetchEventsRoutine prefetch_test_ts 1000 100 1 15 100)) = 100 - 1
   \<and> stride_down 15 (sampled (PrefetchEventsRoutine prefetch_test_ts 1000 100 1 15 100))
   \<and> descending (PrefetchEventsRoutine prefetch_test_ts 1000 100 1 15 100)
   \<and> adjacent_down (PrefetchEventsRoutine prefetch_test_ts 1000 100 1 15 100)
   \<and> sampled (PrefetchEventsRoutine prefetch_test_ts 1000 100 1 15 100) = [99, 84, 69]
   \<and> prefetch_test_ts 69 \<le> 1000 - 100"
  using PrefetchEventsRoutine_walks_backward [of 15 prefetch_test_ts 1000 100 1 100]
  unfolding prefetch_test_run by (simp add: sampled_def prefetch_test_ts_def)

text \<open>
  The claim as stated fails on the test's run: the ranges \<open>[85,99]\<close>, \<open>[70,84]\<close>,
  \<open>[55,69]\<close> are not in ascending order, and the last of them lies below the
  boundary block 69 instead of above it.
\<close>

theorem PrefetchEventsRoutine_ascending_counterexample:
  "PrefetchEventsRoutine prefetch_test_ts 1000 100 1 15 100 = [(85, 99), (70, 84), (55, 69)]
   \<and> \<not> ascending (PrefetchEventsRoutine prefetch_test_ts 1000 100 1 15 100)"
  unfolding prefetch_test_run by (simp add: ascending_def)

subsection \<open>The events of the live routine\<close>

lemma scan_emits:
  "fst (snd (scan fl lp rs)) = concat (map (answer fl) (snd (snd (scan fl lp rs))))"
  by (induction fl lp rs rule: scan.induct) (auto simp: answer_def split: option.splits prod.splits)

lemma live_ticks_emits:
  "fst (snd (live_ticks fl c limit lp heads)) =
     concat (map (answer fl) (snd (snd (live_ticks fl c limit lp heads))))"
proof (induction heads arbitrary: lp)
  case Nil
  then show ?case by simp
next
  case (Cons h hs)
  obtain lp1 out1 asked1 where s: "scan fl lp (BlockRangeCursor h c limit lp) = (lp1, out1, asked1)"
    by (cases "scan fl lp (BlockRangeCursor h c limit lp)") auto
  obtain lp2 out2 asked2 where l: "live_ticks fl c limit lp1 hs = (lp2, out2, asked2)"
    by (cases "live_ticks fl c limit lp1 hs") auto
  from scan_emits [of fl lp "BlockRangeCursor h c limit lp"] s
  have "out1 = concat (map (answer fl) asked1)" by simp
  moreover from Cons.IH [of lp1] l
  have "out2 = concat (map (answer fl) asked2)" by simp
  ultimately show ?case using s l by simp
qed

lemma count_list_concat:
  "count_list (concat xss) x = sum_list (map (\<lambda>xs. count_list xs x) xss)"
  by (induction xss) simp_all

text \<open>
  The run of \<open>Test_teleportEventProvider_FetchEventsRoutine\<close>: heights 100, 119 and
  125, one confirmation, limit 10, every call returning the two logs. The ranges are
  the three the test asserts, and six events are emitted, as \<open>waitForEvents\<close> expects.
\<close>

lemma fetch_test_run:
  "FetchEventsRoutine fetch_test_client 1 10 [100, 119, 125] =
     (124, test_logs @ test_logs @ test_logs, [(100, 109), (110, 118), (119, 124)])"
  by (simp add: BlockRangeCursor_def chunks.simps fetch_test_client_def)

text \<open>
  Claim C8, as the test has it. The scanner holds no event back. The events the live
  routine emits are, in order, the logs of the ranges it fetched: one event for each
  log of each fetch, so the number of events is the number of logs the fetches returned
  and a log is emitted as many times as it was returned. On the test's run the three
  fetches return the same two logs and six events are emitted.
\<close>

theorem FetchEventsRoutine_emits_every_log:
  "emitted (FetchEventsRoutine fl confirmations limit heads) =
     concat (map (answer fl) (asked_ranges (FetchEventsRoutine fl confirmations limit heads)))
   \<and> length (emitted (FetchEventsRoutine fl confirmations limit heads)) =
     sum_list (map length
       (map (answer fl) (asked_ranges (FetchEventsRoutine fl confirmations limit heads))))
   \<and> count_list (emitted (FetchEventsRoutine fl confirmations limit heads)) l =
     sum_list (map (\<lambda>rg. count_list (answer fl rg) l)
       (asked_ranges (FetchEventsRoutine fl confirmations limit heads)))
   \<and> FetchEventsRoutine fetch_test_client 1 10 [100, 119, 125] =
     (124, test_logs @ test_logs @ test_logs, [(100, 109), (110, 118), (119, 124)])"
proof -
  let ?res = "FetchEventsRoutine fl confirmations limit heads"
  have a: "emitted ?res = concat (map (answer fl) (asked_ranges ?res))"
  proof (cases heads)
    case Nil
    then show ?thesis by (simp add: emitted_def asked_ranges_def)
  next
    case (Cons h hs)
    then show ?thesis
      using live_ticks_emits [of fl confirmations limit "h - confirmations" hs]
      by (simp add: emitted_def asked_ranges_def)
  qed
  have b: "length (emitted ?res) = sum_list (map length (map (answer fl) (asked_ranges ?res)))"
    unfolding a by (simp add: length_concat)
  have c: "count_list (emitted ?res) l =
      sum_list (map (\<lambda>rg. count_list (answer fl rg) l) (asked_ranges ?res))"
    unfolding a by (simp add: count_list_concat o_def)
  from a b c fetch_test_run show ?thesis by blast
qed

text \<open>
  The claim as stated fails on the test's run: six events are emitted for two logs, all
  six with the same transaction hash and the same identifier payload.
\<close>

theorem FetchEventsRoutine_duplicates_counterexample:
  "asked_ranges (FetchEventsRoutine fetch_test_client 1 10 [100, 119, 125]) =
     [(100, 109), (110, 118), (119, 124)]
   \<and> length (emitted (FetchEventsRoutine fetch_test_client 1 10 [100, 119, 125])) = 6
   \<and> \<not> distinct (emitted (FetchEventsRoutine fetch_test_client 1 10 [100, 119, 125]))
   \<and> map TxHash (emitted (FetchEventsRoutine fetch_test_client 1 10 [100, 119, 125])) =
      [txHash, txHash, txHash, txHash, txHash, txHash]
   \<and> map Data (emitted (FetchEventsRoutine fetch_test_client 1 10 [100, 119, 125])) =
      [teleportTestGUID, teleportTestGUID, teleportTestGUID,
       teleportTestGUID, teleportTestGUID, teleportTestGUID]"
  unfolding fetch_test_run by (simp add: emitted_def asked_ranges_def test_logs_def)

end
